theory Spec2Isabelle
  imports Complex_Main "HOL-Library.Sublist"
begin

section \<open>Values, timestamps and records\<close>

text \<open>
  A Python \<^verbatim>\<open>datetime\<close>: the wall-clock fields and \<^verbatim>\<open>tzinfo\<close>, which is
  \<^verbatim>\<open>None\<close> for a timezone-naive value and an offset (in seconds) otherwise.
  \<^verbatim>\<open>dt.replace(tzinfo=None)\<close> is the record update \<open>dt\<lparr>tzinfo := None\<rparr>\<close>: the
  wall-clock fields stay.
\<close>

record datetime =
  year :: nat
  month :: nat
  day :: nat
  hour :: nat
  minute :: nat
  second :: nat
  microsecond :: nat
  tzinfo :: "int option"

text \<open>
  The values a scraped record holds. Python compares \<^verbatim>\<open>int\<close>, \<^verbatim>\<open>float\<close> and
  \<^verbatim>\<open>bool\<close> by numeric value, so all three are \<open>VNum\<close>. A dictionary with string keys
  is a map; a record (an app, a game, an event) is such a dictionary.
\<close>

datatype val =
    VNone
  | VStr string
  | VNum rat
  | VDatetime datetime
  | VList "val list"
  | VDict "string \<Rightarrow> val option"

type_synonym dict = "string \<Rightarrow> val option"

text \<open>Python truth value of a value (\<^verbatim>\<open>if value:\<close>). A datetime is always true.\<close>

fun truthy :: "val \<Rightarrow> bool" where
  "truthy VNone = False"
| "truthy (VStr s) = (s \<noteq> [])"
| "truthy (VNum n) = (n \<noteq> 0)"
| "truthy (VDatetime dt) = True"
| "truthy (VList xs) = (xs \<noteq> [])"
| "truthy (VDict d) = (d \<noteq> Map.empty)"

text \<open>\<^verbatim>\<open>d.get(k)\<close>: the value, or \<^verbatim>\<open>None\<close> for a missing key.\<close>

definition dict_get :: "dict \<Rightarrow> string \<Rightarrow> val" where
  "dict_get d k = (case d k of None \<Rightarrow> VNone | Some v \<Rightarrow> v)"

section \<open>The sanitizer: \<^verbatim>\<open>_sanitize_datetime_fields\<close>\<close>

definition datetime_fields :: "string list" where
  "datetime_fields =
     [''last_updated'', ''scraped_at'', ''release_date'', ''current_version_release_date'',
      ''start_date'', ''end_date'', ''timestamp'', ''created_at'', ''updated_at'']"

text \<open>\<^verbatim>\<open>value.replace('Z', '+00:00')\<close>: every \<^verbatim>\<open>Z\<close> of the string, not only a trailing one.\<close>

definition replace_Z :: "string \<Rightarrow> string" where
  "replace_Z s = concat (map (\<lambda>c. if c = CHR ''Z'' then ''+00:00'' else [c]) s)"

text \<open>
  One round of the loop over \<^verbatim>\<open>datetime_fields\<close>. The standard library's
  \<^verbatim>\<open>datetime.fromisoformat\<close> is the parameter \<open>fromisoformat\<close> (\<open>None\<close> when it raises
  \<^verbatim>\<open>ValueError\<close>, which the source catches), and \<open>now\<close> is the reading of
  \<^verbatim>\<open>datetime.now()\<close>.
\<close>

definition sanitize_field ::
  "(string \<Rightarrow> datetime option) \<Rightarrow> datetime \<Rightarrow> dict \<Rightarrow> string \<Rightarrow> dict" where
  "sanitize_field fromisoformat now sanitized field =
     (case sanitized field of
        None \<Rightarrow> sanitized
      | Some v \<Rightarrow>
          if \<not> truthy v then sanitized
          else (case v of
                  VStr s \<Rightarrow>
                    (case fromisoformat (replace_Z s) of
                       Some dt \<Rightarrow> sanitized(field \<mapsto> VDatetime (dt\<lparr>tzinfo := None\<rparr>))
                     | None \<Rightarrow> sanitized(field \<mapsto> VDatetime (now\<lparr>tzinfo := None\<rparr>)))
                | VDatetime dt \<Rightarrow> sanitized(field \<mapsto> VDatetime (dt\<lparr>tzinfo := None\<rparr>))
                | _ \<Rightarrow> sanitized))"

definition sanitize_datetime_fields ::
  "(string \<Rightarrow> datetime option) \<Rightarrow> datetime \<Rightarrow> dict \<Rightarrow> dict" where
  "sanitize_datetime_fields fromisoformat now data =
     fold (\<lambda>field sanitized. sanitize_field fromisoformat now sanitized field)
       datetime_fields data"

text \<open>
  \<^verbatim>\<open>datetime.fromisoformat\<close> on the strings the examples below use: the two listed
  strings parse, and every other string of an example is one the library rejects.
\<close>

definition fromisoformat_examples :: "string \<Rightarrow> datetime option" where
  "fromisoformat_examples =
     map_of
       [(''2024-02-14T10:00:00+00:00'',
           \<lparr>year = 2024, month = 2, day = 14, hour = 10, minute = 0, second = 0,
            microsecond = 0, tzinfo = Some 0\<rparr>),
        (''2024-02-14T10:00:00'',
           \<lparr>year = 2024, month = 2, day = 14, hour = 10, minute = 0, second = 0,
            microsecond = 0, tzinfo = None\<rparr>)]"

text \<open>A clock reading for the examples (\<^verbatim>\<open>datetime.now()\<close> is timezone-naive).\<close>

definition noon :: datetime where
  "noon = \<lparr>year = 2025, month = 6, day = 1, hour = 12, minute = 0, second = 0,
            microsecond = 0, tzinfo = None\<rparr>"

text \<open>The timestamp fields as the specification lists them (eight names).\<close>

definition spec_timestamp_fields :: "string list" where
  "spec_timestamp_fields =
     [''last_updated'', ''scraped_at'', ''release_date'', ''start_date'', ''end_date'',
      ''timestamp'', ''created_at'', ''updated_at'']"

section \<open>The persistence layer: \<^verbatim>\<open>models.py\<close> and the \<^verbatim>\<open>store_*_data\<close> methods\<close>

text \<open>
  A table is the list of its committed rows, in insertion order; a row maps the
  attributes the pipeline wrote to their values, and a column that was never written is
  \<^verbatim>\<open>NULL\<close>, which \<open>dict_get\<close> reads as \<open>VNone\<close>. The surrogate \<^verbatim>\<open>id\<close> and the column
  defaults the database fills in are not part of a row.
\<close>

type_synonym row = dict
type_synonym table = "row list"

text \<open>
  The attributes the three mapped classes declare (columns and relationships): the names
  for which \<^verbatim>\<open>hasattr\<close> holds among the keys scraped records use. A value that a
  column type or a relationship refuses to take is outside the model.
\<close>

definition App_attrs :: "string list" where
  "App_attrs =
     [''id'', ''app_store_id'', ''title'', ''developer'', ''category'', ''country'',
      ''icon_url'', ''description'', ''release_date'', ''current_rank'', ''previous_rank'',
      ''rank_velocity'', ''rating'', ''review_count'', ''price'', ''last_updated'',
      ''reviews'', ''iap_products'', ''scores'', ''clones'']"

definition Event_attrs :: "string list" where
  "Event_attrs =
     [''id'', ''name'', ''event_type'', ''start_date'', ''end_date'', ''description'',
      ''source'', ''region'', ''tags'']"

definition SteamGame_attrs :: "string list" where
  "SteamGame_attrs =
     [''id'', ''steam_id'', ''title'', ''developer'', ''publisher'', ''release_date'',
      ''genre'', ''tags'', ''price'', ''discount_percent'', ''review_score'',
      ''review_count'', ''hype_score'', ''player_count'', ''last_updated'']"

text \<open>
  The constraints the tables declare, checked when \<^verbatim>\<open>session.commit()\<close> flushes:
  \<^verbatim>\<open>unique=True\<close> on \<^verbatim>\<open>app_store_id\<close> and \<^verbatim>\<open>steam_id\<close> (SQLite lets any number of
  \<^verbatim>\<open>NULL\<close>s share a unique column) and \<^verbatim>\<open>nullable=False\<close> on \<^verbatim>\<open>title\<close>, and on an
  event's \<^verbatim>\<open>name\<close> and \<^verbatim>\<open>start_date\<close>. The events table declares no unique constraint.
\<close>

definition column :: "string \<Rightarrow> table \<Rightarrow> val list" where
  "column c t = map (\<lambda>r. dict_get r c) t"

definition unique_column :: "string \<Rightarrow> table \<Rightarrow> bool" where
  "unique_column c t = distinct (filter (\<lambda>v. v \<noteq> VNone) (column c t))"

definition not_null :: "string \<Rightarrow> table \<Rightarrow> bool" where
  "not_null c t = (VNone \<notin> set (column c t))"

definition App_constraints :: "table \<Rightarrow> bool" where
  "App_constraints t = (unique_column ''app_store_id'' t \<and> not_null ''title'' t)"

definition SteamGame_constraints :: "table \<Rightarrow> bool" where
  "SteamGame_constraints t = (unique_column ''steam_id'' t \<and> not_null ''title'' t)"

definition Event_constraints :: "table \<Rightarrow> bool" where
  "Event_constraints t = (not_null ''name'' t \<and> not_null ''start_date'' t)"

text \<open>
  \<^verbatim>\<open>session.query(C).filter_by(col=v).first()\<close>: the position of the first committed
  row whose column is \<open>v\<close> (\<^verbatim>\<open>IS NULL\<close> when \<open>v\<close> is \<^verbatim>\<open>None\<close>), if there is one.
\<close>

fun first_by :: "string \<Rightarrow> val \<Rightarrow> table \<Rightarrow> nat option" where
  "first_by col v [] = None"
| "first_by col v (r # t) =
     (if dict_get r col = v then Some 0 else map_option Suc (first_by col v t))"

text \<open>What reaches an \<^verbatim>\<open>except Exception\<close> clause of the pipeline.\<close>

datatype error = NotADict | CommitRejected | Unhashable | NoLen | NotIterable

text \<open>
  The loop over the batch. The session is made with \<^verbatim>\<open>autoflush=False\<close>, so until
  the commit every query reads the committed table \<open>db\<close>: \<open>work\<close> holds the loaded rows
  with the attribute writes of the session, \<open>pending\<close> the objects added and not yet
  inserted. An element that is no dictionary raises (it has no \<^verbatim>\<open>copy\<close>, or no
  \<^verbatim>\<open>get\<close>). The loop over \<^verbatim>\<open>sanitized_data.items()\<close> with its \<^verbatim>\<open>hasattr\<close> test writes
  exactly the record's entries whose key is an attribute of the class, and the
  dictionary comprehension for a new object keeps exactly those.
\<close>

fun store_rows ::
  "string list \<Rightarrow> string \<Rightarrow> (dict \<Rightarrow> dict) \<Rightarrow> table \<Rightarrow> val list \<Rightarrow>
     table \<times> row list \<Rightarrow> error + table \<times> row list" where
  "store_rows attrs key sanitize db [] (work, pending) = Inr (work, pending)"
| "store_rows attrs key sanitize db (VDict data # batch) (work, pending) =
     (let sanitized_data = sanitize data in
      case first_by key (dict_get sanitized_data key) db of
        Some i \<Rightarrow>
          store_rows attrs key sanitize db batch
            (work[i := work ! i ++ (sanitized_data |` set attrs)], pending)
      | None \<Rightarrow>
          store_rows attrs key sanitize db batch
            (work, pending @ [sanitized_data |` set attrs]))"
| "store_rows attrs key sanitize db (_ # batch) (work, pending) = Inl NotADict"

text \<open>
  A whole \<^verbatim>\<open>store_*_data\<close> call: the loop, then \<^verbatim>\<open>session.commit()\<close>, all inside
  \<^verbatim>\<open>try\<close>. The result is the committed table after the call and what the
  \<^verbatim>\<open>except\<close> clause logged, if it ran. The clause only logs; nothing was flushed before
  the commit, and a flush the database rejects is undone by the commit itself, so on
  every exception the committed table is the one before the call.
\<close>

definition store_data ::
  "string list \<Rightarrow> string \<Rightarrow> (table \<Rightarrow> bool) \<Rightarrow> (dict \<Rightarrow> dict) \<Rightarrow> table \<Rightarrow> val list \<Rightarrow>
     table \<times> error option" where
  "store_data attrs key constraints sanitize db batch =
     (case store_rows attrs key sanitize db batch (db, []) of
        Inl e \<Rightarrow> (db, Some e)
      | Inr (work, pending) \<Rightarrow>
          if constraints (work @ pending) then (work @ pending, None)
          else (db, Some CommitRejected))"

definition store_apps_data ::
  "(string \<Rightarrow> datetime option) \<Rightarrow> datetime \<Rightarrow> table \<Rightarrow> val list \<Rightarrow> table \<times> error option" where
  "store_apps_data fromisoformat now db apps =
     store_data App_attrs ''app_store_id'' App_constraints
       (sanitize_datetime_fields fromisoformat now) db apps"

definition store_steam_data ::
  "(string \<Rightarrow> datetime option) \<Rightarrow> datetime \<Rightarrow> table \<Rightarrow> val list \<Rightarrow> table \<times> error option" where
  "store_steam_data fromisoformat now db games =
     store_data SteamGame_attrs ''steam_id'' SteamGame_constraints
       (sanitize_datetime_fields fromisoformat now) db games"

definition store_events_data ::
  "(string \<Rightarrow> datetime option) \<Rightarrow> datetime \<Rightarrow> table \<Rightarrow> val list \<Rightarrow> table \<times> error option" where
  "store_events_data fromisoformat now db events =
     store_data Event_attrs ''name'' Event_constraints
       (sanitize_datetime_fields fromisoformat now) db events"

text \<open>The natural-key value a batch element carries (\<open>VNone\<close> when it has none).\<close>

definition key_of :: "string \<Rightarrow> val \<Rightarrow> val" where
  "key_of col x = (case x of VDict d \<Rightarrow> dict_get d col | _ \<Rightarrow> VNone)"

text \<open>The committed row the query of \<open>store_rows\<close> finds for a batch element.\<close>

definition matched :: "string \<Rightarrow> (dict \<Rightarrow> dict) \<Rightarrow> table \<Rightarrow> val \<Rightarrow> nat option" where
  "matched key sanitize db x =
     (case x of VDict d \<Rightarrow> first_by key (dict_get (sanitize d) key) db | _ \<Rightarrow> None)"

definition is_dict :: "val \<Rightarrow> bool" where
  "is_dict x = (case x of VDict d \<Rightarrow> True | _ \<Rightarrow> False)"

section \<open>The pipeline state\<close>

text \<open>\<^verbatim>\<open>self.data_cache\<close>.\<close>

record cache =
  apps :: "val list"
  steam_games :: "val list"
  events :: "val list"
  analysis :: val
  last_updated :: "datetime option"

text \<open>The three tables behind the global \<^verbatim>\<open>database\<close>.\<close>

record database =
  app_table :: table
  steam_table :: table
  event_table :: table

text \<open>
  What a job body reads and writes: the cache, the database, and the errors the
  \<^verbatim>\<open>store_*_data\<close> methods logged. No job body assigns \<^verbatim>\<open>is_running\<close> or
  \<^verbatim>\<open>last_run_times\<close>; only \<^verbatim>\<open>execute_job\<close> writes the latter.
\<close>

record stores =
  data_cache :: cache
  tables :: database
  logged :: "error list"

text \<open>
  The pipeline object. \<open>executor\<close> lists the jobs submitted to the thread pool whose
  futures are not done, in submission order; \<open>last_run_times\<close> is the dictionary of
  \<^verbatim>\<open>__init__\<close>, an entry \<open>Some None\<close> being a key whose value is \<^verbatim>\<open>None\<close>.
\<close>

record pipeline =
  is_running :: bool
  last_run_times :: "string \<Rightarrow> datetime option option"
  executor :: "string list"
  stores :: stores

definition config :: "(string \<times> nat) list" where
  "config =
     [(''app_store_full_interval'', 6), (''app_store_quick_interval'', 1),
      (''steam_comprehensive_interval'', 12), (''steam_quick_interval'', 2),
      (''events_comprehensive_interval'', 24), (''events_daily_interval'', 6),
      (''analysis_interval'', 2), (''max_workers'', 4), (''retry_attempts'', 3),
      (''data_retention_days'', 30)]"

definition init :: "database \<Rightarrow> pipeline" where
  "init db =
     \<lparr>is_running = False,
      last_run_times =
        [''app_store_full'' \<mapsto> None, ''app_store_quick'' \<mapsto> None,
         ''steam_comprehensive'' \<mapsto> None, ''steam_quick'' \<mapsto> None,
         ''events_comprehensive'' \<mapsto> None, ''events_daily'' \<mapsto> None,
         ''analysis'' \<mapsto> None],
      executor = [],
      stores =
        \<lparr>data_cache =
           \<lparr>apps = [], steam_games = [], events = [], analysis = VDict Map.empty,
            last_updated = None\<rparr>,
         tables = db, logged = []\<rparr>\<rparr>"

section \<open>The scheduler\<close>

text \<open>The jobs \<^verbatim>\<open>schedule_jobs\<close> registers with the \<^verbatim>\<open>schedule\<close> library: interval in hours, name.\<close>

definition config_get :: "string \<Rightarrow> nat" where
  "config_get k = (case map_of config k of Some v \<Rightarrow> v | None \<Rightarrow> 0)"

definition schedule_jobs :: "(nat \<times> string) list" where
  "schedule_jobs =
     [(config_get ''app_store_full_interval'', ''app_store_full_scrape''),
      (config_get ''app_store_quick_interval'', ''app_store_quick_scrape''),
      (config_get ''steam_comprehensive_interval'', ''steam_comprehensive_scrape''),
      (config_get ''steam_quick_interval'', ''steam_quick_scrape''),
      (config_get ''events_comprehensive_interval'', ''events_comprehensive_scrape''),
      (config_get ''events_daily_interval'', ''events_daily_scrape''),
      (config_get ''analysis_interval'', ''comprehensive_analysis''),
      (24, ''data_cleanup''),
      (12, ''health_check'')]"





text \<open>A future of the pool is done: one submitted invocation of the job leaves the pool.\<close>

definition job_done :: "string \<Rightarrow> pipeline \<Rightarrow> pipeline" where
  "job_done job_name pl = pl\<lparr>executor := remove1 job_name (executor pl)\<rparr>"

section \<open>\<^verbatim>\<open>execute_job\<close> and \<^verbatim>\<open>get_pipeline_status\<close>\<close>

definition job_names :: "string list" where
  "job_names =
     [''app_store_full_scrape'', ''app_store_quick_scrape'', ''steam_comprehensive_scrape'',
      ''steam_quick_scrape'', ''events_comprehensive_scrape'', ''events_daily_scrape'',
      ''comprehensive_analysis'', ''data_cleanup'', ''health_check'']"

text \<open>\<^verbatim>\<open>job_name.replace('_scrape', '')\<close>: every occurrence, left to right.\<close>

fun replace_scrape :: "string \<Rightarrow> string" where
  "replace_scrape [] = []"
| "replace_scrape (c # cs) =
     (if prefix ''_scrape'' (c # cs) then replace_scrape (drop 6 cs)
      else c # replace_scrape cs)"

text \<open>
  \<^verbatim>\<open>execute_job\<close>. The job bodies are the parameter \<open>run\<close>: for a job name and the
  pipeline, whether the body raised (\<open>Inl\<close>, with the message) or returned its data, and
  the stores as the body left them. \<open>now 0\<close>, \<open>now 1\<close> and \<open>now 2\<close> are the successive
  readings of \<^verbatim>\<open>datetime.now()\<close> in the call, and \<open>total_seconds\<close> is the library's
  difference of two timestamps. The assignment to \<^verbatim>\<open>last_run_times\<close> is the last
  statement inside \<^verbatim>\<open>try\<close>; the \<^verbatim>\<open>except\<close> clause builds the error result and does not
  assign it.
\<close>

definition execute_job ::
  "(string \<Rightarrow> pipeline \<Rightarrow> (string + val) \<times> stores) \<Rightarrow> (nat \<Rightarrow> datetime) \<Rightarrow>
     (datetime \<Rightarrow> datetime \<Rightarrow> rat) \<Rightarrow> pipeline \<Rightarrow> string \<Rightarrow> dict \<times> pipeline" where
  "execute_job run now total_seconds pl job_name =
     (let start_time = now 0;
          result = [''job'' \<mapsto> VStr job_name, ''status'' \<mapsto> VStr ''success'',
                    ''start_time'' \<mapsto> VDatetime start_time];
          (outcome, st) =
            (if job_name \<in> set job_names then
               (case run job_name pl of
                  (Inr data, st) \<Rightarrow> (Inr (result(''data'' \<mapsto> data)), st)
                | (Inl e, st) \<Rightarrow> (Inl e, st))
             else
               (Inr (result(''status'' \<mapsto> VStr ''error'',
                            ''error'' \<mapsto> VStr (''Unknown job: '' @ job_name))),
                stores pl))
      in case outcome of
           Inr result \<Rightarrow>
             (result(''end_time'' \<mapsto> VDatetime (now 1),
                     ''duration'' \<mapsto> VNum (total_seconds (now 1) start_time)),
              pl\<lparr>stores := st,
                 last_run_times :=
                   (last_run_times pl)(replace_scrape job_name \<mapsto> Some (now 2))\<rparr>)
         | Inl e \<Rightarrow>
             ([''job'' \<mapsto> VStr job_name, ''status'' \<mapsto> VStr ''error'', ''error'' \<mapsto> VStr e,
               ''start_time'' \<mapsto> VDatetime start_time, ''end_time'' \<mapsto> VDatetime (now 1)],
              pl\<lparr>stores := st\<rparr>))"

record cache_summary =
  apps_count :: nat
  steam_games_count :: nat
  events_count :: nat
  last_analysis :: "datetime option"

record pipeline_status =
  status_is_running :: bool
  status_last_run_times :: "string \<Rightarrow> datetime option option"
  status_cache_summary :: cache_summary
  status_config :: "(string \<times> nat) list"

definition get_pipeline_status :: "pipeline \<Rightarrow> pipeline_status" where
  "get_pipeline_status pl =
     \<lparr>status_is_running = is_running pl,
      status_last_run_times = last_run_times pl,
      status_cache_summary =
        \<lparr>apps_count = length (apps (data_cache (stores pl))),
         steam_games_count = length (steam_games (data_cache (stores pl))),
         events_count = length (events (data_cache (stores pl))),
         last_analysis = last_updated (data_cache (stores pl))\<rparr>,
      status_config = config\<rparr>"

text \<open>
  A run of invocations of one job, each with its own job bodies and clock readings,
  one after the other.
\<close>

fun execute_jobs ::
  "((string \<Rightarrow> pipeline \<Rightarrow> (string + val) \<times> stores) \<times> (nat \<Rightarrow> datetime)) list \<Rightarrow>
     (datetime \<Rightarrow> datetime \<Rightarrow> rat) \<Rightarrow> pipeline \<Rightarrow> string \<Rightarrow> pipeline" where
  "execute_jobs [] total_seconds pl job_name = pl"
| "execute_jobs ((run, now) # rest) total_seconds pl job_name =
     execute_jobs rest total_seconds (snd (execute_job run now total_seconds pl job_name))
       job_name"

section \<open>The cache: \<^verbatim>\<open>deduplicate_apps_cache\<close> and the comprehensive scrapes\<close>

text \<open>A list and a dictionary cannot be members of a Python set.\<close>

fun hashable :: "val \<Rightarrow> bool" where
  "hashable (VList xs) = False"
| "hashable (VDict d) = False"
| "hashable v = True"

text \<open>
  The loop of \<^verbatim>\<open>deduplicate_apps_cache\<close>. \<^verbatim>\<open>app.get\<close> raises on an element that is no
  dictionary; \<^verbatim>\<open>app_id and app_id not in seen_ids\<close> tests the truth value first, and the
  membership test raises on an unhashable identifier.
\<close>

fun dedup_apps :: "val list \<Rightarrow> val set \<Rightarrow> val list \<Rightarrow> error + val list" where
  "dedup_apps [] seen_ids unique_apps = Inr unique_apps"
| "dedup_apps (VDict app # rest) seen_ids unique_apps =
     (let app_id = dict_get app ''app_store_id'' in
      if \<not> truthy app_id then dedup_apps rest seen_ids unique_apps
      else if \<not> hashable app_id then Inl Unhashable
      else if app_id \<notin> seen_ids then
        dedup_apps rest (insert app_id seen_ids) (unique_apps @ [VDict app])
      else dedup_apps rest seen_ids unique_apps)"
| "dedup_apps (_ # rest) seen_ids unique_apps = Inl NotADict"

definition deduplicate_apps_cache :: "stores \<Rightarrow> error + stores" where
  "deduplicate_apps_cache st =
     (case dedup_apps (apps (data_cache st)) {} [] of
        Inl e \<Rightarrow> Inl e
      | Inr unique_apps \<Rightarrow> Inr (st\<lparr>data_cache := (data_cache st)\<lparr>apps := unique_apps\<rparr>\<rparr>))"

text \<open>The \<^verbatim>\<open>app_store_id\<close> a cached element carries.\<close>

definition app_id_of :: "val \<Rightarrow> val" where
  "app_id_of = key_of ''app_store_id''"

text \<open>
  \<^verbatim>\<open>for category, games in trending_data.items(): if isinstance(games, list):
  all_games.extend(games)\<close>, on the items of the scraped dictionary in their order.
\<close>

definition list_values :: "(string \<times> val) list \<Rightarrow> val list" where
  "list_values items =
     concat (map (\<lambda>(category, v). case v of VList xs \<Rightarrow> xs | _ \<Rightarrow> []) items)"

definition list_count :: "(string \<times> val) list \<Rightarrow> nat" where
  "list_count items =
     length (filter (\<lambda>(category, v). case v of VList xs \<Rightarrow> True | _ \<Rightarrow> False) items)"

text \<open>\<^verbatim>\<open>len(v)\<close>.\<close>

fun py_len :: "val \<Rightarrow> error + nat" where
  "py_len (VList xs) = Inr (length xs)"
| "py_len (VStr s) = Inr (length s)"
| "py_len (VDict d) = Inr (card (dom d))"
| "py_len v = Inl NoLen"

text \<open>\<^verbatim>\<open>{'error': str(e)}\<close>, with the exception's class name for its text.\<close>

definition error_data :: "string \<Rightarrow> val" where
  "error_data msg = VDict [''error'' \<mapsto> VStr msg]"

fun describe :: "error \<Rightarrow> string" where
  "describe NotADict = ''AttributeError''"
| "describe CommitRejected = ''IntegrityError''"
| "describe Unhashable = ''TypeError''"
| "describe NoLen = ''TypeError''"
| "describe NotIterable = ''TypeError''"

definition log_error :: "error option \<Rightarrow> error list \<Rightarrow> error list" where
  "log_error err lg = (case err of None \<Rightarrow> lg | Some e \<Rightarrow> lg @ [e])"

text \<open>
  \<^verbatim>\<open>steam_comprehensive_scrape\<close>. \<open>scraped\<close> is what
  \<^verbatim>\<open>scrape_comprehensive_trending()\<close> did: raise (\<open>Inl\<close>), or return a dictionary, given
  by its items. The cache entry is assigned the concatenated list as it is; the method
  calls no deduplication.
\<close>

definition steam_comprehensive_scrape ::
  "(string \<Rightarrow> datetime option) \<Rightarrow> datetime \<Rightarrow> string + (string \<times> val) list \<Rightarrow> stores \<Rightarrow>
     val \<times> stores" where
  "steam_comprehensive_scrape fromisoformat now scraped st =
     (case scraped of
        Inl e \<Rightarrow> (error_data e, st)
      | Inr trending_data \<Rightarrow>
          (let all_games = list_values trending_data;
               (tbl, err) =
                 store_steam_data fromisoformat now (steam_table (tables st)) all_games;
               st1 = st\<lparr>tables := (tables st)\<lparr>steam_table := tbl\<rparr>,
                        logged := log_error err (logged st)\<rparr>;
               st2 = st1\<lparr>data_cache := (data_cache st1)\<lparr>steam_games := all_games\<rparr>\<rparr>
           in case py_len (case map_of trending_data ''comprehensive_ranking'' of
                             None \<Rightarrow> VList [] | Some v \<Rightarrow> v) of
                Inl e \<Rightarrow> (error_data (describe e), st2)
              | Inr n \<Rightarrow>
                  (VDict [''total_games'' \<mapsto> VNum (of_nat (length all_games)),
                          ''categories_scraped'' \<mapsto> VNum (of_nat (list_count trending_data)),
                          ''comprehensive_ranking_count'' \<mapsto> VNum (of_nat n)],
                   st2)))"

text \<open>
  \<^verbatim>\<open>events_comprehensive_scrape\<close>, of the same shape. The count of high-impact events
  reads \<^verbatim>\<open>events_data.get('comprehensive_analysis', {}).get('high_impact_events', [])\<close>.
\<close>

definition high_impact_events :: "(string \<times> val) list \<Rightarrow> error + nat" where
  "high_impact_events events_data =
     (case map_of events_data ''comprehensive_analysis'' of
        None \<Rightarrow> Inr 0
      | Some (VDict d) \<Rightarrow>
          py_len (case d ''high_impact_events'' of None \<Rightarrow> VList [] | Some v \<Rightarrow> v)
      | Some v \<Rightarrow> Inl NotADict)"

definition events_comprehensive_scrape ::
  "(string \<Rightarrow> datetime option) \<Rightarrow> datetime \<Rightarrow> string + (string \<times> val) list \<Rightarrow> stores \<Rightarrow>
     val \<times> stores" where
  "events_comprehensive_scrape fromisoformat now scraped st =
     (case scraped of
        Inl e \<Rightarrow> (error_data e, st)
      | Inr events_data \<Rightarrow>
          (let all_events = list_values events_data;
               (tbl, err) =
                 store_events_data fromisoformat now (event_table (tables st)) all_events;
               st1 = st\<lparr>tables := (tables st)\<lparr>event_table := tbl\<rparr>,
                        logged := log_error err (logged st)\<rparr>;
               st2 = st1\<lparr>data_cache := (data_cache st1)\<lparr>events := all_events\<rparr>\<rparr>
           in case high_impact_events events_data of
                Inl e \<Rightarrow> (error_data (describe e), st2)
              | Inr n \<Rightarrow>
                  (VDict [''total_events'' \<mapsto> VNum (of_nat (length all_events)),
                          ''categories_scraped'' \<mapsto> VNum (of_nat (list_count events_data)),
                          ''high_impact_events'' \<mapsto> VNum (of_nat n)],
                   st2)))"

text \<open>
  \<^verbatim>\<open>app_store_quick_scrape\<close>. \<open>scraped\<close> is the dictionary
  \<^verbatim>\<open>get_trending_analysis()\<close> returned. \<^verbatim>\<open>for app_data in trending_apps\<close> runs over
  a list, or over the characters of a string; an empty dictionary gives no round, a
  dictionary with a key fails at the first round (a key has no \<^verbatim>\<open>get\<close>), and any
  other value is not iterable. Each trending app with a true \<^verbatim>\<open>app\<close> entry is stored
  by a call of its own. Like every job body but \<^verbatim>\<open>app_store_full_scrape\<close>, the method
  is wholly inside \<^verbatim>\<open>try\<close>, and its \<^verbatim>\<open>except Exception\<close> clause returns
  \<^verbatim>\<open>{'error': str(e)}\<close>: it returns a dictionary on every path.
\<close>

fun trending_list :: "val \<Rightarrow> error + val list" where
  "trending_list (VList xs) = Inr xs"
| "trending_list (VStr s) = Inr (map (\<lambda>c. VStr [c]) s)"
| "trending_list (VDict d) = (if d = Map.empty then Inr [] else Inl NotADict)"
| "trending_list v = Inl NotIterable"

fun store_trending ::
  "(string \<Rightarrow> datetime option) \<Rightarrow> datetime \<Rightarrow> val list \<Rightarrow> stores \<Rightarrow> error option \<times> stores" where
  "store_trending fromisoformat now [] st = (None, st)"
| "store_trending fromisoformat now (VDict app_data # rest) st =
     (let app = (case app_data ''app'' of None \<Rightarrow> VDict Map.empty | Some v \<Rightarrow> v) in
      if truthy app then
        (let stored = store_apps_data fromisoformat now (app_table (tables st)) [app]
         in store_trending fromisoformat now rest
              (st\<lparr>tables := (tables st)\<lparr>app_table := fst stored\<rparr>,
                  logged := log_error (snd stored) (logged st)\<rparr>))
      else store_trending fromisoformat now rest st)"
| "store_trending fromisoformat now (_ # rest) st = (Some NotADict, st)"

definition app_store_quick_scrape ::
  "(string \<Rightarrow> datetime option) \<Rightarrow> datetime \<Rightarrow> string + dict \<Rightarrow> stores \<Rightarrow> val \<times> stores" where
  "app_store_quick_scrape fromisoformat now scraped st =
     (case scraped of
        Inl e \<Rightarrow> (error_data e, st)
      | Inr trending_data \<Rightarrow>
          (let trending_apps =
                 (case trending_data ''trending_apps'' of None \<Rightarrow> VList [] | Some v \<Rightarrow> v)
           in case trending_list trending_apps of
                Inl e \<Rightarrow> (error_data (describe e), st)
              | Inr items \<Rightarrow>
                  (case store_trending fromisoformat now items st of
                     (Some e, st') \<Rightarrow> (error_data (describe e), st')
                   | (None, st') \<Rightarrow>
                       (case py_len trending_apps of
                          Inl e \<Rightarrow> (error_data (describe e), st')
                        | Inr n \<Rightarrow>
                            (VDict [''trending_apps_count'' \<mapsto> VNum (of_nat n),
                                    ''analysis_timestamp'' \<mapsto>
                                      dict_get trending_data ''analysis_timestamp'',
                                    ''regions_covered'' \<mapsto>
                                      (case trending_data ''regions_covered'' of
                                         None \<Rightarrow> VNum 0 | Some v \<Rightarrow> v)],
                             st')))))"

text \<open>
  A job body as \<^verbatim>\<open>execute_job\<close> sees it when the body returns: the dictionary it
  returned becomes the \<^verbatim>\<open>data\<close> of the result, whatever the dictionary says.
\<close>

definition job_returns ::
  "(pipeline \<Rightarrow> val \<times> stores) \<Rightarrow> string \<Rightarrow> pipeline \<Rightarrow> (string + val) \<times> stores" where
  "job_returns body job_name pl = (Inr (fst (body pl)), snd (body pl))"

section \<open>Records for the examples\<close>

text \<open>Scraped records as the scrapers build them: string identifiers and titles.\<close>

definition app_record :: "string \<Rightarrow> string \<Rightarrow> rat \<Rightarrow> val" where
  "app_record app_id title rating =
     VDict [''app_store_id'' \<mapsto> VStr app_id, ''title'' \<mapsto> VStr title,
            ''rating'' \<mapsto> VNum rating]"

definition untitled_app :: "string \<Rightarrow> val" where
  "untitled_app app_id = VDict [''app_store_id'' \<mapsto> VStr app_id]"

definition event_record :: "string \<Rightarrow> datetime \<Rightarrow> val" where
  "event_record name start =
     VDict [''name'' \<mapsto> VStr name, ''start_date'' \<mapsto> VDatetime start]"

definition game_record :: "string \<Rightarrow> string \<Rightarrow> val" where
  "game_record steam_id title =
     VDict [''steam_id'' \<mapsto> VStr steam_id, ''title'' \<mapsto> VStr title]"

definition new_year :: datetime where
  "new_year = \<lparr>year = 2026, month = 1, day = 1, hour = 0, minute = 0, second = 0,
                microsecond = 0, tzinfo = None\<rparr>"

text \<open>A database with no rows, and the stores of a fresh pipeline with a given apps cache.\<close>

definition empty_database :: database where
  "empty_database = \<lparr>app_table = [], steam_table = [], event_table = []\<rparr>"

definition cached_apps :: "val list \<Rightarrow> stores" where
  "cached_apps xs =
     \<lparr>data_cache = \<lparr>apps = xs, steam_games = [], events = [], analysis = VDict Map.empty,
                     last_updated = None\<rparr>,
      tables = empty_database, logged = []\<rparr>"

text \<open>
  What \<^verbatim>\<open>get_trending_analysis()\<close> returns when every request of the scrape fails:
  \<^verbatim>\<open>scrape_region_chart\<close> returns \<^verbatim>\<open>[]\<close> for each of the thirty regions, so no app
  is analyzed and none is trending. And what it returns with one trending app.
\<close>

definition nothing_fetched :: dict where
  "nothing_fetched =
     [''trending_apps'' \<mapsto> VList [], ''analysis_timestamp'' \<mapsto> VStr ''2025-06-01T12:00:00'',
      ''time_window_hours'' \<mapsto> VNum 24, ''total_apps_analyzed'' \<mapsto> VNum 0,
      ''regions_covered'' \<mapsto> VNum 30]"

definition one_trending :: dict where
  "one_trending =
     [''trending_apps'' \<mapsto>
        VList [VDict [''app'' \<mapsto> app_record ''123'' ''A'' 4, ''trend_score'' \<mapsto> VNum 80]],
      ''analysis_timestamp'' \<mapsto> VStr ''2025-06-01T12:00:00'',
      ''time_window_hours'' \<mapsto> VNum 24, ''total_apps_analyzed'' \<mapsto> VNum 100,
      ''regions_covered'' \<mapsto> VNum 30]"

text \<open>
  The job bodies of the examples: \<^verbatim>\<open>app_store_quick_scrape\<close> on a given scraper
  result, and a body that returns a summary and stamps the cache, as
  \<^verbatim>\<open>comprehensive_analysis\<close> does. \<open>clock\<close> gives the successive readings of one call,
  a second apart, and \<open>seconds_apart\<close> is the difference of two readings within one
  minute.
\<close>

definition quick_scrape_run ::
  "string + dict \<Rightarrow> string \<Rightarrow> pipeline \<Rightarrow> (string + val) \<times> stores" where
  "quick_scrape_run scraped =
     job_returns
       (\<lambda>pl. app_store_quick_scrape fromisoformat_examples noon scraped (stores pl))"

definition returning_run :: "string \<Rightarrow> pipeline \<Rightarrow> (string + val) \<times> stores" where
  "returning_run job_name pl =
     (Inr (VDict [''analysis_categories'' \<mapsto> VNum 2]),
      (stores pl)\<lparr>data_cache := (data_cache (stores pl))\<lparr>last_updated := Some noon\<rparr>\<rparr>)"

definition clock :: "nat \<Rightarrow> datetime" where
  "clock i = noon\<lparr>second := i\<rparr>"

definition seconds_apart :: "datetime \<Rightarrow> datetime \<Rightarrow> rat" where
  "seconds_apart a b = of_nat (second a) - of_nat (second b)"

section \<open>Properties of the sanitizer\<close>

lemma sanitize_field_other:
  "f \<noteq> field \<Longrightarrow> sanitize_field p n s field f = s f"
  by (auto simp: sanitize_field_def split: option.splits val.splits)

lemma sanitize_field_cong:
  "s field = s' field \<Longrightarrow>
   sanitize_field p n s field field = sanitize_field p n s' field field"
  by (auto simp: sanitize_field_def split: option.splits val.splits)

text \<open>
  Each round of the loop writes its own field only, so the loop can be read field by
  field.
\<close>

lemma fold_sanitize_field:
  "distinct fs \<Longrightarrow>
   fold (\<lambda>field sanitized. sanitize_field p n sanitized field) fs d f =
     (if f \<in> set fs then sanitize_field p n d f f else d f)"
proof (induction fs arbitrary: d)
  case Nil
  then show ?case by simp
next
  case (Cons x xs)
  let ?d = "sanitize_field p n d x"
  from Cons.prems have dx: "x \<notin> set xs" and dxs: "distinct xs" by simp_all
  have step: "fold (\<lambda>field sanitized. sanitize_field p n sanitized field) xs ?d f =
     (if f \<in> set xs then sanitize_field p n ?d f f else ?d f)"
    using Cons.IH [OF dxs] .
  show ?case
  proof (cases "f = x")
    case True
    with dx step show ?thesis by simp
  next
    case False
    then have same: "?d f = d f" by (simp add: sanitize_field_other)
    then have "sanitize_field p n ?d f f = sanitize_field p n d f f"
      by (rule sanitize_field_cong)
    with False same step show ?thesis by simp
  qed
qed

lemma distinct_datetime_fields: "distinct datetime_fields"
  by (simp add: datetime_fields_def)

lemma sanitize_at:
  "sanitize_datetime_fields p n d f =
     (if f \<in> set datetime_fields then sanitize_field p n d f f else d f)"
  unfolding sanitize_datetime_fields_def
  by (rule fold_sanitize_field [OF distinct_datetime_fields])

lemma sanitize_keeps:
  "f \<notin> set datetime_fields \<Longrightarrow> dict_get (sanitize_datetime_fields p n d) f = dict_get d f"
  by (simp add: dict_get_def sanitize_at)

text \<open>
  C4. In a recognized timestamp field the sanitizer's output is absent (and was absent
  in the input), or a timezone-naive timestamp, or a value that is no timestamp and is
  the input's value unchanged: never a timezone-aware timestamp. This holds for every
  input record, every parser and every clock reading.
\<close>

theorem sanitize_never_timezone_aware:
  assumes "field \<in> set datetime_fields"
  shows "case sanitize_datetime_fields fromisoformat now data field of
           None \<Rightarrow> data field = None
         | Some (VDatetime dt) \<Rightarrow> tzinfo dt = None
         | Some v \<Rightarrow> data field = Some v"
  using assms
  by (auto simp: sanitize_at sanitize_field_def split: option.splits val.splits)

text \<open>
  The five input shapes at \<^verbatim>\<open>release_date\<close>: a string with a trailing \<^verbatim>\<open>Z\<close>, a
  timezone-aware timestamp, a timezone-naive one, a malformed string and an absent field.
\<close>

theorem sanitize_never_timezone_aware_witness:
  "''release_date'' \<in> set datetime_fields
   \<and> (case sanitize_datetime_fields fromisoformat_examples noon
              [''release_date'' \<mapsto> VDatetime (noon\<lparr>tzinfo := Some 3600\<rparr>)] ''release_date'' of
         None \<Rightarrow> False
       | Some (VDatetime dt) \<Rightarrow> tzinfo dt = None
       | Some v \<Rightarrow> False)
   \<and> sanitize_datetime_fields fromisoformat_examples noon
        [''release_date'' \<mapsto> VStr ''2024-02-14T10:00:00Z''] ''release_date''
       = Some (VDatetime \<lparr>year = 2024, month = 2, day = 14, hour = 10, minute = 0,
                          second = 0, microsecond = 0, tzinfo = None\<rparr>)
   \<and> sanitize_datetime_fields fromisoformat_examples noon
        [''release_date'' \<mapsto> VDatetime (noon\<lparr>tzinfo := Some 3600\<rparr>)] ''release_date''
       = Some (VDatetime noon)
   \<and> sanitize_datetime_fields fromisoformat_examples noon
        [''release_date'' \<mapsto> VDatetime noon] ''release_date'' = Some (VDatetime noon)
   \<and> sanitize_datetime_fields fromisoformat_examples noon
        [''release_date'' \<mapsto> VStr ''next week''] ''release_date'' = Some (VDatetime noon)
   \<and> sanitize_datetime_fields fromisoformat_examples noon Map.empty ''release_date'' = None"
  using sanitize_never_timezone_aware [where field = "''release_date''"
      and fromisoformat = fromisoformat_examples and now = noon
      and data = "[''release_date'' \<mapsto> VDatetime (noon\<lparr>tzinfo := Some 3600\<rparr>)]"]
  by (simp add: sanitize_at sanitize_field_def datetime_fields_def replace_Z_def
      fromisoformat_examples_def noon_def)

text \<open>
  C5, as the specification states it, fails: the loop skips a value whose truth value is
  false, and the empty string is such a value. It does not parse, and it is passed
  through.
\<close>

theorem sanitize_unparsable_counterexample:
  "''release_date'' \<in> set datetime_fields
   \<and> fromisoformat_examples (replace_Z []) = None
   \<and> sanitize_datetime_fields fromisoformat_examples noon
        [''release_date'' \<mapsto> VStr []] ''release_date'' = Some (VStr [])"
  by (simp add: sanitize_at sanitize_field_def datetime_fields_def replace_Z_def
      fromisoformat_examples_def)

text \<open>
  C5, amended. The sanitizer is a total function (the parser's \<^verbatim>\<open>ValueError\<close> is the
  only exception of its body, and it is caught); a non-empty string in a recognized
  timestamp field that does not parse is replaced by the timezone-naive clock reading,
  and an empty string stays.
\<close>

theorem sanitize_unparsable_string:
  assumes "field \<in> set datetime_fields"
    and "data field = Some (VStr s)"
    and "fromisoformat (replace_Z s) = None"
  shows "sanitize_datetime_fields fromisoformat now data field =
           (if s = [] then Some (VStr s) else Some (VDatetime (now\<lparr>tzinfo := None\<rparr>)))"
  using assms by (simp add: sanitize_at sanitize_field_def)

theorem sanitize_unparsable_string_witness:
  "''scraped_at'' \<in> set datetime_fields
   \<and> [''title'' \<mapsto> VStr ''A'', ''scraped_at'' \<mapsto> VStr ''yesterday''] ''scraped_at''
       = Some (VStr ''yesterday'')
   \<and> fromisoformat_examples (replace_Z ''yesterday'') = None
   \<and> sanitize_datetime_fields fromisoformat_examples noon
        [''title'' \<mapsto> VStr ''A'', ''scraped_at'' \<mapsto> VStr ''yesterday''] ''scraped_at''
       = Some (VDatetime (noon\<lparr>tzinfo := None\<rparr>))"
proof -
  have f: "''scraped_at'' \<in> set datetime_fields"
    by (simp add: datetime_fields_def)
  have d: "[''title'' \<mapsto> VStr ''A'', ''scraped_at'' \<mapsto> VStr ''yesterday''] ''scraped_at''
             = Some (VStr ''yesterday'')"
    by simp
  have p: "fromisoformat_examples (replace_Z ''yesterday'') = None"
    by (simp add: replace_Z_def fromisoformat_examples_def)
  from sanitize_unparsable_string [where now = noon and field = "''scraped_at''"
      and data = "[''title'' \<mapsto> VStr ''A'', ''scraped_at'' \<mapsto> VStr ''yesterday'']"
      and s = "''yesterday''" and fromisoformat = fromisoformat_examples, OF f d p] f d p
  show ?thesis by simp
qed

text \<open>
  C6, as the specification states it, fails: the source's list has a ninth name,
  \<^verbatim>\<open>current_version_release_date\<close>, and the sanitizer rewrites that field too.
\<close>

theorem sanitize_frame_counterexample:
  "''current_version_release_date'' \<notin> set spec_timestamp_fields
   \<and> sanitize_datetime_fields fromisoformat_examples noon
        [''current_version_release_date'' \<mapsto> VStr ''2024-02-14T10:00:00Z'']
        ''current_version_release_date''
       = Some (VDatetime \<lparr>year = 2024, month = 2, day = 14, hour = 10, minute = 0,
                          second = 0, microsecond = 0, tzinfo = None\<rparr>)"
  by (simp add: sanitize_at sanitize_field_def datetime_fields_def replace_Z_def
      fromisoformat_examples_def spec_timestamp_fields_def)

text \<open>
  C6, amended. The fields the sanitizer may alter are the eight of the specification
  and \<^verbatim>\<open>current_version_release_date\<close>; every other key passes through with its value
  unchanged (and an absent key stays absent).
\<close>

theorem sanitize_frame:
  "set datetime_fields = insert ''current_version_release_date'' (set spec_timestamp_fields)
   \<and> (field \<notin> set datetime_fields \<longrightarrow>
        sanitize_datetime_fields fromisoformat now data field = data field)"
  by (auto simp: sanitize_at datetime_fields_def spec_timestamp_fields_def)

theorem sanitize_frame_witness:
  "''title'' \<notin> set datetime_fields
   \<and> sanitize_datetime_fields fromisoformat_examples noon
        [''title'' \<mapsto> VStr ''2024-02-14T10:00:00Z'', ''release_date'' \<mapsto> VStr ''2024-02-14T10:00:00Z'']
        ''title''
       = Some (VStr ''2024-02-14T10:00:00Z'')"
  using sanitize_frame [where field = "''title''" and fromisoformat = fromisoformat_examples
      and now = noon
      and data = "[''title'' \<mapsto> VStr ''2024-02-14T10:00:00Z'',
                   ''release_date'' \<mapsto> VStr ''2024-02-14T10:00:00Z'']"]
  by (simp add: datetime_fields_def spec_timestamp_fields_def)

section \<open>Properties of the persistence layer\<close>

lemma first_by_Some:
  "first_by col v t = Some i \<Longrightarrow> i < length t \<and> dict_get (t ! i) col = v"
  by (induction t arbitrary: i) (auto split: if_splits)

lemma first_by_None: "(first_by col v t = None) = (v \<notin> set (column col t))"
  by (induction t) (auto simp: column_def)

declare store_rows.simps(2) [simp del]

lemma store_rows_step:
  "store_rows attrs key s db (VDict d # batch) (work, pending) =
     (case first_by key (dict_get (s d) key) db of
        Some i \<Rightarrow> store_rows attrs key s db batch
                    (work[i := work ! i ++ (s d |` set attrs)], pending)
      | None \<Rightarrow> store_rows attrs key s db batch (work, pending @ [s d |` set attrs]))"
  by (simp add: Let_def store_rows.simps(2))

lemma store_rows_not_dict:
  "\<not> is_dict x \<Longrightarrow> store_rows attrs key s db (x # batch) (work, pending) = Inl NotADict"
  by (cases x) (simp_all add: is_dict_def)

lemma store_rows_length:
  "store_rows attrs key s db batch (work, pending) = Inr (work', pending') \<Longrightarrow>
   length work' = length work"
proof (induction batch arbitrary: work pending)
  case Nil
  then show ?case by simp
next
  case (Cons x xs)
  show ?case
  proof (cases x)
    case (VDict d)
    with Cons.prems show ?thesis
      by (auto simp: store_rows_step split: option.splits dest!: Cons.IH)
  qed (use Cons.prems in simp_all)
qed

lemma store_rows_pending:
  "store_rows attrs key s db batch (work, pending) = Inr (work', pending') \<Longrightarrow>
   length pending' =
     length pending + length (filter (\<lambda>x. matched key s db x = None) batch)"
proof (induction batch arbitrary: work pending)
  case Nil
  then show ?case by simp
next
  case (Cons x xs)
  show ?case
  proof (cases x)
    case (VDict d)
    with Cons.prems show ?thesis
      by (auto simp: store_rows_step matched_def split: option.splits dest!: Cons.IH)
  qed (use Cons.prems in simp_all)
qed

lemma store_rows_total:
  "(\<exists>w p. store_rows attrs key s db batch (work, pending) = Inr (w, p)) =
     list_all is_dict batch"
proof (induction batch arbitrary: work pending)
  case Nil
  then show ?case by simp
next
  case (Cons x xs)
  show ?case
  proof (cases x)
    case (VDict d)
    then show ?thesis
      by (simp add: store_rows_step is_dict_def Cons.IH split: option.splits)
  qed (simp_all add: is_dict_def)
qed

lemma dict_get_upsert:
  "dict_get m key = dict_get sd key \<Longrightarrow> dict_get (m ++ (sd |` A)) key = dict_get m key"
  by (auto simp: dict_get_def map_add_def restrict_map_def split: option.splits)

lemma store_rows_column:
  "store_rows attrs key s db batch (work, pending) = Inr (work', pending') \<Longrightarrow>
   column key work = column key db \<Longrightarrow> column key work' = column key db"
proof (induction batch arbitrary: work pending)
  case Nil
  then show ?case by simp
next
  case (Cons x xs)
  show ?case
  proof (cases x)
    case (VDict d)
    show ?thesis
    proof (cases "first_by key (dict_get (s d) key) db")
      case None
      with VDict Cons.prems show ?thesis
        by (auto simp: store_rows_step dest: Cons.IH)
    next
      case (Some i)
      then have i: "i < length db" and k: "dict_get (db ! i) key = dict_get (s d) key"
        by (auto dest: first_by_Some)
      from Cons.prems(2) have len: "length work = length db"
        by (metis column_def length_map)
      from Cons.prems(2) i len have "dict_get (work ! i) key = dict_get (db ! i) key"
        by (metis column_def nth_map)
      with k have "dict_get (work ! i ++ (s d |` set attrs)) key = dict_get (work ! i) key"
        by (simp add: dict_get_upsert)
      then have "column key (work[i := work ! i ++ (s d |` set attrs)]) = column key work"
        unfolding column_def by (metis list_update_id map_update)
      with Cons.prems(2) have
        "column key (work[i := work ! i ++ (s d |` set attrs)]) = column key db" by simp
      moreover from VDict Some Cons.prems(1) have
        "store_rows attrs key s db xs (work[i := work ! i ++ (s d |` set attrs)], pending)
           = Inr (work', pending')"
        by (simp add: store_rows_step)
      ultimately show ?thesis by (rule Cons.IH [rotated])
    qed
  qed (use Cons.prems in simp_all)
qed

lemma store_rows_pending_mono:
  "store_rows attrs key s db batch (work, pending) = Inr (work', pending') \<Longrightarrow>
   set pending \<subseteq> set pending'"
proof (induction batch arbitrary: work pending)
  case Nil
  then show ?case by simp
next
  case (Cons x xs)
  show ?case
  proof (cases x)
    case (VDict d)
    with Cons.prems show ?thesis
      by (auto simp: store_rows_step split: option.splits dest!: Cons.IH)
  qed (use Cons.prems in simp_all)
qed

lemma store_rows_keys_stored:
  assumes "store_rows attrs key s db batch (work, pending) = Inr (work', pending')"
    and "key \<in> set attrs" and "x \<in> set batch"
  shows "\<exists>d. x = VDict d \<and>
           dict_get (s d) key \<in> set (column key db) \<union> set (column key pending')"
  using assms(1,3)
proof (induction batch arbitrary: work pending)
  case Nil
  then show ?case by simp
next
  case (Cons y ys)
  show ?case
  proof (cases y)
    case (VDict d)
    show ?thesis
    proof (cases "first_by key (dict_get (s d) key) db")
      case None
      with VDict Cons.prems(1) have run:
        "store_rows attrs key s db ys (work, pending @ [s d |` set attrs]) = Inr (work', pending')"
        by (simp add: store_rows_step)
      show ?thesis
      proof (cases "x = y")
        case True
        from run have "s d |` set attrs \<in> set pending'"
          by (auto dest: store_rows_pending_mono)
        then have "dict_get (s d |` set attrs) key \<in> set (column key pending')"
          by (auto simp: column_def)
        moreover have "dict_get (s d |` set attrs) key = dict_get (s d) key"
          using assms(2) by (simp add: dict_get_def)
        ultimately show ?thesis using True VDict by simp
      next
        case False
        with Cons.prems(2) have "x \<in> set ys" by simp
        with run show ?thesis by (rule Cons.IH)
      qed
    next
      case (Some i)
      with VDict Cons.prems(1) have run:
        "store_rows attrs key s db ys (work[i := work ! i ++ (s d |` set attrs)], pending)
           = Inr (work', pending')"
        by (simp add: store_rows_step)
      show ?thesis
      proof (cases "x = y")
        case True
        from Some have "dict_get (s d) key \<in> set (column key db)"
          by (metis first_by_None option.distinct(1))
        with True VDict show ?thesis by simp
      next
        case False
        with Cons.prems(2) have "x \<in> set ys" by simp
        with run show ?thesis by (rule Cons.IH)
      qed
    qed
  qed (use Cons.prems in simp_all)
qed

lemma matched_after:
  assumes run: "store_rows attrs key s db batch (db, []) = Inr (work, pending)"
    and key: "key \<in> set attrs" and x: "x \<in> set batch"
  shows "matched key s (work @ pending) x \<noteq> None"
proof -
  from store_rows_keys_stored [OF run key x] obtain d where
    d: "x = VDict d"
    and "dict_get (s d) key \<in> set (column key db) \<union> set (column key pending)"
    by blast
  moreover from run have "column key work = column key db"
    by (rule store_rows_column) simp
  ultimately have "dict_get (s d) key \<in> set (column key (work @ pending))"
    by (auto simp: column_def)
  with d show ?thesis
    by (simp add: matched_def first_by_None)
qed

lemma store_data_cases:
  obtains (failed) e where "store_data attrs key C s db batch = (db, Some e)"
  | (stored) work pending where
      "store_rows attrs key s db batch (db, []) = Inr (work, pending)"
      "C (work @ pending)"
      "store_data attrs key C s db batch = (work @ pending, None)"
proof (cases "store_rows attrs key s db batch (db, [])")
  case (Inl e)
  then have "store_data attrs key C s db batch = (db, Some e)"
    by (simp add: store_data_def)
  then show ?thesis by (rule failed)
next
  case (Inr st)
  obtain work pending where st: "st = (work, pending)" by (cases st)
  show ?thesis
  proof (cases "C (work @ pending)")
    case True
    with Inr st have "store_data attrs key C s db batch = (work @ pending, None)"
      by (simp add: store_data_def)
    with Inr st True show ?thesis by (auto intro: stored)
  next
    case False
    with Inr st have "store_data attrs key C s db batch = (db, Some CommitRejected)"
      by (simp add: store_data_def)
    then show ?thesis by (rule failed)
  qed
qed

lemma store_rows_append:
  "store_rows attrs key s db (xs @ ys) (work, pending) =
     (case store_rows attrs key s db xs (work, pending) of
        Inl e \<Rightarrow> Inl e
      | Inr st \<Rightarrow> store_rows attrs key s db ys st)"
proof (induction xs arbitrary: work pending)
  case Nil
  then show ?case by simp
next
  case (Cons x xs)
  show ?case
  proof (cases x)
    case (VDict d)
    then show ?thesis
      by (simp add: store_rows_step Cons.IH split: option.splits)
  qed simp_all
qed

lemma store_rows_untouched:
  "store_rows attrs key s db batch (work, pending) = Inr (work', pending') \<Longrightarrow>
   Some i \<notin> matched key s db ` set batch \<Longrightarrow> work' ! i = work ! i"
proof (induction batch arbitrary: work pending)
  case Nil
  then show ?case by simp
next
  case (Cons x xs)
  show ?case
  proof (cases x)
    case (VDict d)
    show ?thesis
    proof (cases "first_by key (dict_get (s d) key) db")
      case None
      with VDict Cons.prems show ?thesis
        by (auto simp: store_rows_step dest: Cons.IH)
    next
      case (Some j)
      with VDict Cons.prems(2) have ji: "j \<noteq> i"
        by (auto simp: matched_def image_iff)
      from VDict Some Cons.prems(1) have
        "store_rows attrs key s db xs (work[j := work ! j ++ (s d |` set attrs)], pending)
           = Inr (work', pending')"
        by (simp add: store_rows_step)
      moreover from Cons.prems(2) have "Some i \<notin> matched key s db ` set xs" by simp
      ultimately have "work' ! i = (work[j := work ! j ++ (s d |` set attrs)]) ! i"
        by (rule Cons.IH)
      with ji show ?thesis by simp
    qed
  qed (use Cons.prems in simp_all)
qed

lemma store_rows_last_write:
  assumes run: "store_rows attrs key s db (pre @ VDict d # post) (work, pending)
                  = Inr (work', pending')"
    and hit: "first_by key (dict_get (s d) key) db = Some i"
    and len: "length work = length db"
    and later: "Some i \<notin> matched key s db ` set post"
    and c: "c \<in> set attrs" "s d c \<noteq> None"
  shows "(work' ! i) c = s d c"
proof -
  from run obtain work1 pending1 where
    pre: "store_rows attrs key s db pre (work, pending) = Inr (work1, pending1)"
    and rest: "store_rows attrs key s db (VDict d # post) (work1, pending1)
                 = Inr (work', pending')"
    by (auto simp: store_rows_append split: sum.splits)
  from store_rows_length [OF pre] len hit have i: "i < length work1"
    by (auto dest: first_by_Some)
  from rest hit have
    "store_rows attrs key s db post (work1[i := work1 ! i ++ (s d |` set attrs)], pending1)
       = Inr (work', pending')"
    by (simp add: store_rows_step)
  from store_rows_untouched [OF this later] i
  have "work' ! i = work1 ! i ++ (s d |` set attrs)" by simp
  with c show ?thesis
    by (auto simp: map_add_def restrict_map_def split: option.splits)
qed

lemma app_key: "''app_store_id'' \<in> set App_attrs" "''app_store_id'' \<notin> set datetime_fields"
  by (simp_all add: App_attrs_def datetime_fields_def)

lemma event_key: "''name'' \<in> set Event_attrs" "''name'' \<notin> set datetime_fields"
  by (simp_all add: Event_attrs_def datetime_fields_def)




lemma sanitize_present:
  "(sanitize_datetime_fields p n d c = None) = (d c = None)"
  by (auto simp: sanitize_at sanitize_field_def split: option.splits val.splits)

lemma store_data_all_dicts:
  assumes "store_data attrs key C s db batch = (db', None)"
  shows "list_all is_dict batch"
proof (cases rule: store_data_cases [of attrs key C s db batch])
  case (failed e)
  with assms show ?thesis by simp
next
  case (stored work pending)
  then show ?thesis using store_rows_total [of attrs key s db batch db "[]"] by blast
qed

lemma matched_key_of:
  assumes keep: "\<And>d. dict_get (s d) key = dict_get d key" and "is_dict x"
  shows "(matched key s db x = None) = (key_of key x \<notin> set (column key db))"
  using assms(2)
  by (cases x) (simp_all add: is_dict_def matched_def key_of_def keep first_by_None)

lemma store_data_count:
  assumes ok: "store_data attrs key C s db batch = (db', None)"
    and keep: "\<And>d. dict_get (s d) key = dict_get d key"
  shows "length db' =
           length db + length (filter (\<lambda>x. key_of key x \<notin> set (column key db)) batch)"
proof (cases rule: store_data_cases [of attrs key C s db batch])
  case (failed e)
  with ok show ?thesis by simp
next
  case (stored work pending)
  from store_data_all_dicts [OF ok] have
    "filter (\<lambda>x. matched key s db x = None) batch =
     filter (\<lambda>x. key_of key x \<notin> set (column key db)) batch"
    by (intro filter_cong refl matched_key_of keep) (simp add: list_all_iff)
  with store_rows_pending [OF stored(1)] store_rows_length [OF stored(1)] stored(3) ok
  show ?thesis by simp
qed

lemma store_data_names_kept:
  assumes ok: "store_data attrs key C s db batch = (db', None)"
  shows "column key (take (length db) db') = column key db"
proof (cases rule: store_data_cases [of attrs key C s db batch])
  case (failed e)
  with ok show ?thesis by simp
next
  case (stored work pending)
  from store_rows_column [OF stored(1)] have "column key work = column key db" by simp
  moreover from store_rows_length [OF stored(1)] have "length work = length db" .
  ultimately show ?thesis using stored(3) ok by simp
qed

lemma store_data_last_write:
  assumes ok: "store_data attrs key C s db (pre @ VDict d # post) = (db', None)"
    and keep: "\<And>d. dict_get (s d) key = dict_get d key"
    and hit: "first_by key (dict_get d key) db = Some i"
    and later: "dict_get d key \<notin> key_of key ` set post"
    and c: "c \<in> set attrs" "s d c \<noteq> None"
  shows "(db' ! i) c = s d c"
proof (cases rule: store_data_cases [of attrs key C s db "pre @ VDict d # post"])
  case (failed e)
  with ok show ?thesis by simp
next
  case (stored work pending)
  from hit have i: "i < length db" and ki: "dict_get (db ! i) key = dict_get d key"
    by (auto dest: first_by_Some)
  have "Some i \<notin> matched key s db ` set post"
  proof
    assume "Some i \<in> matched key s db ` set post"
    then obtain x where x: "x \<in> set post" and m: "matched key s db x = Some i" by auto
    from m obtain d' where d': "x = VDict d'"
      and "first_by key (dict_get (s d') key) db = Some i"
      by (cases x) (simp_all add: matched_def)
    then have "dict_get (db ! i) key = dict_get d' key"
      by (auto dest: first_by_Some simp: keep)
    with ki d' have "key_of key x = dict_get d key" by (simp add: key_of_def)
    with x later show False by (metis imageI)
  qed
  with store_rows_last_write [OF stored(1) _ _ _ c, of i] hit
  have "(work ! i) c = s d c" by (simp add: keep)
  moreover from store_rows_length [OF stored(1)] i have "i < length work" by simp
  ultimately show ?thesis using stored(3) ok by (simp add: nth_append)
qed

text \<open>
  The clock reading reaches the stored rows through the timestamp fields only, and
  neither the lookup key nor the constraints read those: whether a call commits, and
  how many rows it leaves, does not depend on the reading.
\<close>

lemma restrict_upsert:
  "(m ++ (n |` A)) |` S = (m |` S) ++ ((n |` S) |` A)"
  by (auto simp: restrict_map_def map_add_def fun_eq_iff split: option.splits)

lemma restrict_new: "(n |` A) |` S = (n |` S) |` A"
  by (auto simp: restrict_map_def fun_eq_iff)

lemma restrict_new_cong:
  "m |` S = n |` S \<Longrightarrow> (m |` A) |` S = (n |` A) |` S"
  by (metis restrict_new)

lemma restrict_upsert_cong:
  "a |` S = b |` S \<Longrightarrow> m |` S = n |` S \<Longrightarrow>
   (a ++ (m |` A)) |` S = (b ++ (n |` A)) |` S"
  by (simp only: restrict_upsert)

lemma dict_get_restrict: "c \<in> S \<Longrightarrow> dict_get (r |` S) c = dict_get r c"
  by (simp add: dict_get_def)

lemma store_rows_clock:
  assumes s: "\<And>d. s1 d |` S = s2 d |` S" and key: "key \<in> S"
  shows "map (\<lambda>r. r |` S) w1 = map (\<lambda>r. r |` S) w2 \<Longrightarrow>
         map (\<lambda>r. r |` S) p1 = map (\<lambda>r. r |` S) p2 \<Longrightarrow>
         (case (store_rows attrs key s1 db batch (w1, p1),
                store_rows attrs key s2 db batch (w2, p2)) of
            (Inr (a, b), Inr (a', b')) \<Rightarrow>
               map (\<lambda>r. r |` S) a = map (\<lambda>r. r |` S) a'
               \<and> map (\<lambda>r. r |` S) b = map (\<lambda>r. r |` S) b'
          | (Inl e, Inl e') \<Rightarrow> e = e'
          | _ \<Rightarrow> False)"
proof (induction batch arbitrary: w1 w2 p1 p2)
  case Nil
  then show ?case by simp
next
  case (Cons x xs)
  show ?case
  proof (cases x)
    case (VDict d)
    have k: "dict_get (s1 d) key = dict_get (s2 d) key"
      using s [of d] key by (metis dict_get_restrict)
    show ?thesis
    proof (cases "first_by key (dict_get (s2 d) key) db")
      case None
      have "map (\<lambda>r. r |` S) (p1 @ [s1 d |` set attrs])
          = map (\<lambda>r. r |` S) (p2 @ [s2 d |` set attrs])"
        using Cons.prems(2) restrict_new_cong [OF s [of d], of "set attrs"] by simp
      from Cons.IH [OF Cons.prems(1) this] VDict None k show ?thesis
        by (simp add: store_rows_step)
    next
      case (Some i)
      from Cons.prems(1) have len: "length w1 = length w2"
        by (metis length_map)
      have "map (\<lambda>r. r |` S) (w1[i := w1 ! i ++ (s1 d |` set attrs)])
          = map (\<lambda>r. r |` S) (w2[i := w2 ! i ++ (s2 d |` set attrs)])"
      proof (cases "i < length w1")
        case True
        with len Cons.prems(1) have "(w1 ! i) |` S = (w2 ! i) |` S"
          by (metis nth_map)
        then have "(w1 ! i ++ (s1 d |` set attrs)) |` S = (w2 ! i ++ (s2 d |` set attrs)) |` S"
          using s [of d] by (rule restrict_upsert_cong)
        with Cons.prems(1) show ?thesis
          by (simp add: map_update)
      next
        case False
        with len have "w1[i := w1 ! i ++ (s1 d |` set attrs)] = w1"
          "w2[i := w2 ! i ++ (s2 d |` set attrs)] = w2"
          by (simp_all add: list_update_beyond)
        with Cons.prems(1) show ?thesis by simp
      qed
      from Cons.IH [OF this Cons.prems(2)] VDict Some k show ?thesis
        by (simp add: store_rows_step)
    qed
  qed simp_all
qed

lemma store_data_clock:
  assumes s: "\<And>d. s1 d |` S = s2 d |` S" and key: "key \<in> S"
    and C: "\<And>t t'. map (\<lambda>r. r |` S) t = map (\<lambda>r. r |` S) t' \<Longrightarrow> C t = C t'"
  shows "snd (store_data attrs key C s1 db batch) = snd (store_data attrs key C s2 db batch)
       \<and> length (fst (store_data attrs key C s1 db batch))
           = length (fst (store_data attrs key C s2 db batch))"
proof -
  have "map (\<lambda>r. r |` S) db = map (\<lambda>r. r |` S) db" "map (\<lambda>r. r |` S) [] = map (\<lambda>r. r |` S) ([] :: row list)"
    by simp_all
  from store_rows_clock [of s1 S s2 key db db "[]" "[]" attrs db batch, OF s key this]
  show ?thesis
  proof (cases "store_rows attrs key s1 db batch (db, [])";
         cases "store_rows attrs key s2 db batch (db, [])")
    fix a b
    assume r: "store_rows attrs key s1 db batch (db, []) = Inr a"
      "store_rows attrs key s2 db batch (db, []) = Inr b"
      and rel: "case (store_rows attrs key s1 db batch (db, []),
                store_rows attrs key s2 db batch (db, [])) of
            (Inr (a, b), Inr (a', b')) \<Rightarrow>
               map (\<lambda>r. r |` S) a = map (\<lambda>r. r |` S) a'
               \<and> map (\<lambda>r. r |` S) b = map (\<lambda>r. r |` S) b'
          | (Inl e, Inl e') \<Rightarrow> e = e'
          | _ \<Rightarrow> False"
    obtain w p w' p' where ab: "a = (w, p)" "b = (w', p')" by (cases a, cases b)
    from rel r ab have m: "map (\<lambda>r. r |` S) (w @ p) = map (\<lambda>r. r |` S) (w' @ p')"
      by simp
    then have "C (w @ p) = C (w' @ p')" by (rule C)
    moreover from m have "length (w @ p) = length (w' @ p')" by (metis length_map)
    ultimately show ?thesis using r ab by (simp add: store_data_def)
  qed (auto simp: store_data_def)
qed

lemma store_data_twice_length_clock:
  assumes key: "key \<in> set attrs"
    and s: "\<And>d. s1 d |` S = s2 d |` S" and keyS: "key \<in> S"
    and C: "\<And>t t'. map (\<lambda>r. r |` S) t = map (\<lambda>r. r |` S) t' \<Longrightarrow> C t = C t'"
  shows "length (fst (store_data attrs key C s2 (fst (store_data attrs key C s1 db batch)) batch))
       = length (fst (store_data attrs key C s1 db batch))"
proof (cases rule: store_data_cases [of attrs key C s1 db batch])
  case (failed e)
  with store_data_clock [of s1 S s2 key C attrs db batch, OF s keyS C]
  have "snd (store_data attrs key C s2 db batch) = Some e" by simp
  then have "fst (store_data attrs key C s2 db batch) = db"
    by (cases rule: store_data_cases [of attrs key C s2 db batch]) simp_all
  with failed show ?thesis by simp
next
  case (stored work pending)
  let ?t = "work @ pending"
  have same: "dict_get (s2 d) key = dict_get (s1 d) key" for d
    using s [of d] keyS by (metis dict_get_restrict)
  show ?thesis
  proof (cases rule: store_data_cases [of attrs key C s2 ?t batch])
    case (failed e)
    with stored(3) show ?thesis by simp
  next
    case again: (stored work' pending')
    have "matched key s2 ?t x = matched key s1 ?t x" for x
      by (cases x) (simp_all add: matched_def same)
    then have "filter (\<lambda>x. matched key s2 ?t x = None) batch = []"
      using matched_after [OF stored(1) key] by (simp add: filter_empty_conv)
    with store_rows_pending [OF again(1)] have "pending' = []" by simp
    moreover from store_rows_length [OF again(1)] have "length work' = length ?t" .
    ultimately show ?thesis using stored(3) again(3) by simp
  qed
qed

lemma sanitize_clock:
  "sanitize_datetime_fields f now d |` (- set datetime_fields)
     = sanitize_datetime_fields f now' d |` (- set datetime_fields)"
  by (auto simp: restrict_map_def sanitize_at fun_eq_iff)

lemma column_restrict:
  "c \<in> S \<Longrightarrow> column c t = column c (map (\<lambda>r. r |` S) t)"
  by (simp add: column_def dict_get_restrict)

lemma App_constraints_clock:
  assumes "map (\<lambda>r. r |` (- set datetime_fields)) t = map (\<lambda>r. r |` (- set datetime_fields)) t'"
  shows "App_constraints t = App_constraints t'"
proof -
  have col: "column c t = column c t'" if "c \<in> - set datetime_fields" for c
    using column_restrict [OF that, of t] column_restrict [OF that, of t'] assms
    by metis
  have "column ''app_store_id'' t = column ''app_store_id'' t'"
    by (rule col) (simp add: datetime_fields_def)
  moreover have "column ''title'' t = column ''title'' t'"
    by (rule col) (simp add: datetime_fields_def)
  ultimately show ?thesis
    by (simp add: App_constraints_def unique_column_def not_null_def)
qed

lemma store_apps_twice:
  "length (fst (store_apps_data f now' (fst (store_apps_data f now db batch)) batch))
     = length (fst (store_apps_data f now db batch))"
  unfolding store_apps_data_def
  by (rule store_data_twice_length_clock [where S = "- set datetime_fields"])
     (rule app_key, rule sanitize_clock, simp add: app_key, erule App_constraints_clock)

text \<open>
  C3. Storing the same batch twice, at any two clock readings, leaves as many rows as
  storing it once, whatever the table and the batch; a table with unique \<^verbatim>\<open>app_store_id\<close>s keeps them unique; and
  when a call commits, the row found for a record's \<^verbatim>\<open>app_store_id\<close> holds, in every
  column the record gives, the (sanitized) value of the last record of the batch with
  that identifier.
\<close>

theorem store_apps_data_idempotent:
  "length (fst (store_apps_data f now' (fst (store_apps_data f now db batch)) batch))
     = length (fst (store_apps_data f now db batch))
   \<and> (App_constraints db \<longrightarrow>
        unique_column ''app_store_id'' (fst (store_apps_data f now db batch)))
   \<and> (store_apps_data f now db (pre @ VDict d # post) = (db', None)
        \<and> first_by ''app_store_id'' (dict_get d ''app_store_id'') db = Some i
        \<and> dict_get d ''app_store_id'' \<notin> key_of ''app_store_id'' ` set post
        \<and> c \<in> set App_attrs \<and> d c \<noteq> None
      \<longrightarrow> (db' ! i) c = sanitize_datetime_fields f now d c)"
proof (intro conjI impI)
  show "length (fst (store_apps_data f now' (fst (store_apps_data f now db batch)) batch))
     = length (fst (store_apps_data f now db batch))"
    by (rule store_apps_twice)
next
  assume "App_constraints db"
  then show "unique_column ''app_store_id'' (fst (store_apps_data f now db batch))"
    by (cases rule: store_data_cases [of App_attrs "''app_store_id''" App_constraints
          "sanitize_datetime_fields f now" db batch])
       (auto simp: store_apps_data_def App_constraints_def)
next
  assume a: "store_apps_data f now db (pre @ VDict d # post) = (db', None)
        \<and> first_by ''app_store_id'' (dict_get d ''app_store_id'') db = Some i
        \<and> dict_get d ''app_store_id'' \<notin> key_of ''app_store_id'' ` set post
        \<and> c \<in> set App_attrs \<and> d c \<noteq> None"
  show "(db' ! i) c = sanitize_datetime_fields f now d c"
    by (rule store_data_last_write [of App_attrs "''app_store_id''" App_constraints _ db pre d post])
       (use a in \<open>simp_all add: store_apps_data_def sanitize_keeps app_key sanitize_present\<close>)
qed

lemmas store_eval =
  store_apps_data_def store_events_data_def store_data_def sanitize_at sanitize_field_def
  dict_get_def restrict_map_def map_add_def App_attrs_def Event_attrs_def datetime_fields_def
  App_constraints_def Event_constraints_def unique_column_def not_null_def column_def
  app_record_def untitled_app_def event_record_def store_rows.simps Let_def


text \<open>
  The scenario of the specification: \<^verbatim>\<open>{"app_store_id":"123","title":"A","rating":4.0}\<close>
  stored into an empty table, then the same record with rating 4.5: both calls commit,
  the table has exactly one row, for \<^verbatim>\<open>123\<close>, and its rating is 4.5.
\<close>

theorem store_apps_data_idempotent_witness:
  "snd (store_apps_data fromisoformat_examples noon [] [app_record ''123'' ''A'' 4]) = None
   \<and> snd (store_apps_data fromisoformat_examples noon
             (fst (store_apps_data fromisoformat_examples noon [] [app_record ''123'' ''A'' 4]))
             [app_record ''123'' ''A'' (9/2)]) = None
   \<and> column ''app_store_id''
        (fst (store_apps_data fromisoformat_examples noon
               (fst (store_apps_data fromisoformat_examples noon [] [app_record ''123'' ''A'' 4]))
               [app_record ''123'' ''A'' (9/2)]))
       = [VStr ''123'']
   \<and> (fst (store_apps_data fromisoformat_examples noon
               (fst (store_apps_data fromisoformat_examples noon [] [app_record ''123'' ''A'' 4]))
               [app_record ''123'' ''A'' (9/2)]) ! 0) ''rating''
       = Some (VNum (9/2))"
proof -
  let ?d = "[''app_store_id'' \<mapsto> VStr ''123'', ''title'' \<mapsto> VStr ''A'', ''rating'' \<mapsto> VNum (9/2)]"
  let ?db = "fst (store_apps_data fromisoformat_examples noon [] [app_record ''123'' ''A'' 4])"
  let ?r = "store_apps_data fromisoformat_examples noon ?db [app_record ''123'' ''A'' (9/2)]"
  have first: "snd (store_apps_data fromisoformat_examples noon [] [app_record ''123'' ''A'' 4]) = None"
    by (simp add: store_eval)
  have second: "snd ?r = None"
    by (simp add: store_eval)
  have col: "column ''app_store_id'' (fst ?r) = [VStr ''123'']"
    by (simp add: store_eval)
  have hyp: "store_apps_data fromisoformat_examples noon ?db ([] @ VDict ?d # []) = (fst ?r, None)
        \<and> first_by ''app_store_id'' (dict_get ?d ''app_store_id'') ?db = Some 0
        \<and> dict_get ?d ''app_store_id'' \<notin> key_of ''app_store_id'' ` set []
        \<and> ''rating'' \<in> set App_attrs \<and> ?d ''rating'' \<noteq> None"
    by (simp add: store_eval)
  from store_apps_data_idempotent [where f = fromisoformat_examples and now = noon
      and db = ?db and pre = "[]" and d = ?d and post = "[]" and db' = "fst ?r" and i = 0
      and c = "''rating''"] hyp
  have "(fst ?r ! 0) ''rating'' = sanitize_datetime_fields fromisoformat_examples noon ?d ''rating''"
    by blast
  then have "(fst ?r ! 0) ''rating'' = Some (VNum (9/2))"
    by (simp add: sanitize_at datetime_fields_def)
  with first second col show ?thesis by simp
qed

text \<open>
  C7, as the specification states it, fails. \<^verbatim>\<open>store_events_data\<close> looks an event up by
  \<^verbatim>\<open>name\<close> alone and the \<^verbatim>\<open>events\<close> table declares no unique constraint. An event
  stored after one of the same name and another start date overwrites it (one row is
  left, not two); and a batch that holds the same new event twice commits two rows with
  the same name and start date.
\<close>

theorem store_events_data_counterexample:
  "snd (store_events_data fromisoformat_examples noon
          (fst (store_events_data fromisoformat_examples noon [] [event_record ''Expo'' noon]))
          [event_record ''Expo'' new_year]) = None
   \<and> length (fst (store_events_data fromisoformat_examples noon
                (fst (store_events_data fromisoformat_examples noon []
                       [event_record ''Expo'' noon]))
                [event_record ''Expo'' new_year])) = 1
   \<and> column ''start_date''
        (fst (store_events_data fromisoformat_examples noon []
               [event_record ''Expo'' noon, event_record ''Expo'' noon]))
       = [VDatetime noon, VDatetime noon]
   \<and> column ''name''
        (fst (store_events_data fromisoformat_examples noon []
               [event_record ''Expo'' noon, event_record ''Expo'' noon]))
       = [VStr ''Expo'', VStr ''Expo'']"
  by (simp add: store_eval noon_def new_year_def)

text \<open>
  C7, amended. Events are matched by \<^verbatim>\<open>name\<close> alone. When a call commits, the table
  grows by one row for every record of the batch whose name was in no committed row
  before the call, and by none for the others; the rows committed before keep their
  names; and the first row of a record's name holds, in every column the record gives
  (its start date too), the (sanitized) value of the last record of the batch with that
  name.
\<close>

theorem store_events_data_by_name:
  "(store_events_data f now db batch = (db', None) \<longrightarrow>
      length db' =
        length db + length (filter (\<lambda>x. key_of ''name'' x \<notin> set (column ''name'' db)) batch)
      \<and> column ''name'' (take (length db) db') = column ''name'' db)
   \<and> (store_events_data f now db (pre @ VDict d # post) = (db'', None)
        \<and> first_by ''name'' (dict_get d ''name'') db = Some i
        \<and> dict_get d ''name'' \<notin> key_of ''name'' ` set post
        \<and> c \<in> set Event_attrs \<and> d c \<noteq> None
      \<longrightarrow> (db'' ! i) c = sanitize_datetime_fields f now d c)"
proof (intro conjI impI)
  assume a: "store_events_data f now db batch = (db', None)"
  then show "length db' =
        length db + length (filter (\<lambda>x. key_of ''name'' x \<notin> set (column ''name'' db)) batch)"
    unfolding store_events_data_def
    by (rule store_data_count) (simp add: sanitize_keeps event_key)
  from a show "column ''name'' (take (length db) db') = column ''name'' db"
    unfolding store_events_data_def by (rule store_data_names_kept)
next
  assume a: "store_events_data f now db (pre @ VDict d # post) = (db'', None)
        \<and> first_by ''name'' (dict_get d ''name'') db = Some i
        \<and> dict_get d ''name'' \<notin> key_of ''name'' ` set post
        \<and> c \<in> set Event_attrs \<and> d c \<noteq> None"
  show "(db'' ! i) c = sanitize_datetime_fields f now d c"
    by (rule store_data_last_write [of Event_attrs "''name''" Event_constraints _ db pre d post])
       (use a in \<open>simp_all add: store_events_data_def sanitize_keeps event_key sanitize_present\<close>)
qed

theorem store_events_data_by_name_witness:
  "snd (store_events_data fromisoformat_examples noon []
          [event_record ''Expo'' noon, event_record ''Expo'' noon]) = None
   \<and> length (fst (store_events_data fromisoformat_examples noon []
                [event_record ''Expo'' noon, event_record ''Expo'' noon])) = 2
   \<and> snd (store_events_data fromisoformat_examples noon
            (fst (store_events_data fromisoformat_examples noon [] [event_record ''Expo'' noon]))
            [event_record ''Expo'' new_year]) = None
   \<and> (fst (store_events_data fromisoformat_examples noon
            (fst (store_events_data fromisoformat_examples noon [] [event_record ''Expo'' noon]))
            [event_record ''Expo'' new_year]) ! 0) ''start_date''
       = Some (VDatetime new_year)"
proof -
  let ?d = "[''name'' \<mapsto> VStr ''Expo'', ''start_date'' \<mapsto> VDatetime new_year]"
  let ?db = "fst (store_events_data fromisoformat_examples noon [] [event_record ''Expo'' noon])"
  let ?r = "store_events_data fromisoformat_examples noon ?db [event_record ''Expo'' new_year]"
  let ?two = "store_events_data fromisoformat_examples noon []
          [event_record ''Expo'' noon, event_record ''Expo'' noon]"
  have two: "?two = (fst ?two, None)"
    by (simp add: store_eval noon_def)
  have hyp: "store_events_data fromisoformat_examples noon ?db ([] @ VDict ?d # []) = (fst ?r, None)
        \<and> first_by ''name'' (dict_get ?d ''name'') ?db = Some 0
        \<and> dict_get ?d ''name'' \<notin> key_of ''name'' ` set []
        \<and> ''start_date'' \<in> set Event_attrs \<and> ?d ''start_date'' \<noteq> None"
    by (simp add: store_eval noon_def new_year_def)
  from store_events_data_by_name [where f = fromisoformat_examples and now = noon
      and db = "[]" and batch = "[event_record ''Expo'' noon, event_record ''Expo'' noon]"
      and db' = "fst ?two"] two
  have "length (fst ?two) = 2"
    by (simp add: key_of_def event_record_def column_def dict_get_def)
  moreover
  from store_events_data_by_name [where f = fromisoformat_examples and now = noon
      and db = ?db and pre = "[]" and d = ?d and post = "[]" and db'' = "fst ?r" and i = 0
      and c = "''start_date''"] hyp
  have "(fst ?r ! 0) ''start_date''
          = sanitize_datetime_fields fromisoformat_examples noon ?d ''start_date''"
    by blast
  then have "(fst ?r ! 0) ''start_date'' = Some (VDatetime new_year)"
    by (simp add: sanitize_at sanitize_field_def datetime_fields_def new_year_def)
  moreover have "snd ?two = None" using two by (metis snd_conv)
  moreover have "snd ?r = None" by (simp add: store_eval noon_def new_year_def)
  ultimately show ?thesis by simp
qed

section \<open>Properties of the scheduler\<close>





section \<open>Properties of the cache\<close>

declare dedup_apps.simps(2) [simp del]

lemma dedup_apps_step:
  "dedup_apps (VDict app # rest) seen acc =
     (if \<not> truthy (dict_get app ''app_store_id'') then dedup_apps rest seen acc
      else if \<not> hashable (dict_get app ''app_store_id'') then Inl Unhashable
      else if dict_get app ''app_store_id'' \<notin> seen then
        dedup_apps rest (insert (dict_get app ''app_store_id'') seen) (acc @ [VDict app])
      else dedup_apps rest seen acc)"
  by (simp add: dedup_apps.simps(2) Let_def)

lemma app_id_of_dict [simp]: "app_id_of (VDict app) = dict_get app ''app_store_id''"
  by (simp add: app_id_of_def key_of_def)

lemma dedup_apps_shape:
  "dedup_apps xs seen acc = Inr ys \<Longrightarrow>
   \<exists>zs. ys = acc @ zs \<and> subseq zs xs \<and> distinct (map app_id_of zs)
      \<and> set (map app_id_of zs) = {k \<in> app_id_of ` set xs. truthy k \<and> k \<notin> seen}
      \<and> (\<forall>z\<in>set zs. find (\<lambda>x. app_id_of x = app_id_of z) xs = Some z)"
proof (induction xs arbitrary: seen acc)
  case Nil
  then show ?case by simp
next
  case (Cons x xs)
  show ?case
  proof (cases x)
    case (VDict app)
    let ?k = "dict_get app ''app_store_id''"
    show ?thesis
    proof (cases "truthy ?k \<and> ?k \<notin> seen")
      case True
      with VDict Cons.prems have run:
        "dedup_apps xs (insert ?k seen) (acc @ [x]) = Inr ys"
        by (simp add: dedup_apps_step split: if_splits)
      from Cons.IH [OF run] obtain zs where zs:
        "ys = (acc @ [x]) @ zs" "subseq zs xs" "distinct (map app_id_of zs)"
        "set (map app_id_of zs) = {k \<in> app_id_of ` set xs. truthy k \<and> k \<notin> insert ?k seen}"
        "\<forall>z\<in>set zs. find (\<lambda>x. app_id_of x = app_id_of z) xs = Some z"
        by blast
      from zs(4) have notin: "?k \<notin> set (map app_id_of zs)" by blast
      have "ys = acc @ (x # zs)" using zs(1) by simp
      moreover have "subseq (x # zs) (x # xs)" using zs(2) by simp
      moreover have "distinct (map app_id_of (x # zs))"
        using zs(3) notin VDict by simp
      moreover have "set (map app_id_of (x # zs)) =
          {k \<in> app_id_of ` set (x # xs). truthy k \<and> k \<notin> seen}"
        using zs(4) True VDict by auto
      moreover have "\<forall>z\<in>set (x # zs). find (\<lambda>y. app_id_of y = app_id_of z) (x # xs) = Some z"
      proof
        fix z assume z: "z \<in> set (x # zs)"
        show "find (\<lambda>y. app_id_of y = app_id_of z) (x # xs) = Some z"
        proof (cases "z = x")
          case True
          then show ?thesis by simp
        next
          case False
          with z have zz: "z \<in> set zs" by simp
          with notin have "app_id_of z \<noteq> ?k" by (metis imageI set_map)
          with VDict zs(5) zz show ?thesis by simp
        qed
      qed
      ultimately show ?thesis by blast
    next
      case False
      with VDict Cons.prems have run: "dedup_apps xs seen acc = Inr ys"
        by (auto simp: dedup_apps_step split: if_splits)
      from Cons.IH [OF run] obtain zs where zs:
        "ys = acc @ zs" "subseq zs xs" "distinct (map app_id_of zs)"
        "set (map app_id_of zs) = {k \<in> app_id_of ` set xs. truthy k \<and> k \<notin> seen}"
        "\<forall>z\<in>set zs. find (\<lambda>x. app_id_of x = app_id_of z) xs = Some z"
        by blast
      have "subseq zs (x # xs)" using zs(2) by (rule list_emb_Cons)
      moreover have "set (map app_id_of zs) =
          {k \<in> app_id_of ` set (x # xs). truthy k \<and> k \<notin> seen}"
        using zs(4) False VDict by auto
      moreover have "\<forall>z\<in>set zs. find (\<lambda>y. app_id_of y = app_id_of z) (x # xs) = Some z"
      proof
        fix z assume zz: "z \<in> set zs"
        then have "app_id_of z \<in> set (map app_id_of zs)" by simp
        with zs(4) have "truthy (app_id_of z) \<and> app_id_of z \<notin> seen" by blast
        with False VDict have "app_id_of x \<noteq> app_id_of z" by auto
        with zs(5) zz show "find (\<lambda>y. app_id_of y = app_id_of z) (x # xs) = Some z" by simp
      qed
      ultimately show ?thesis using zs(1,3) by blast
    qed
  qed (use Cons.prems in simp_all)
qed

lemma dedup_apps_total:
  "list_all (\<lambda>x. is_dict x \<and> (truthy (app_id_of x) \<longrightarrow> hashable (app_id_of x))) xs \<Longrightarrow>
   \<exists>ys. dedup_apps xs seen acc = Inr ys"
proof (induction xs arbitrary: seen acc)
  case Nil
  then show ?case by simp
next
  case (Cons x xs)
  then show ?case
    by (cases x) (auto simp: is_dict_def dedup_apps_step)
qed

lemma steam_cache:
  "steam_games (data_cache (snd (steam_comprehensive_scrape f now (Inr trending_data) st)))
     = list_values trending_data"
  by (simp add: steam_comprehensive_scrape_def Let_def split: prod.splits sum.splits)

lemma events_cache:
  "events (data_cache (snd (events_comprehensive_scrape f now (Inr events_data) st)))
     = list_values events_data"
  by (simp add: events_comprehensive_scrape_def Let_def split: prod.splits sum.splits)

text \<open>
  C9, as the specification states it, fails for \<^verbatim>\<open>steam_games\<close> (and \<^verbatim>\<open>events\<close>):
  \<^verbatim>\<open>steam_comprehensive_scrape\<close> assigns the concatenated category lists to the cache
  with no deduplication, so a game in two categories is cached twice.
\<close>

theorem cache_dedup_counterexample:
  "map (key_of ''steam_id'')
     (steam_games (data_cache (snd (steam_comprehensive_scrape fromisoformat_examples noon
        (Inr [(''top_sellers'', VList [game_record ''570'' ''Dota 2'']),
              (''trending'', VList [game_record ''570'' ''Dota 2''])])
        (cached_apps [])))))
     = [VStr ''570'', VStr ''570'']"
  by (simp add: steam_cache list_values_def key_of_def game_record_def dict_get_def)

text \<open>
  C9, amended. Only the \<^verbatim>\<open>apps\<close> snapshot is deduplicated. When
  \<^verbatim>\<open>deduplicate_apps_cache\<close> returns, the cached list has no repeated
  \<^verbatim>\<open>app_store_id\<close>, is a subsequence of the list before (first-seen order), holds
  exactly the identifiers of the list before whose truth value is true (a record with
  no identifier, or an empty one, is dropped), and each kept record is the first of the
  list before with its identifier. It returns whenever every cached element is a
  dictionary whose identifier, if true, is hashable. The \<^verbatim>\<open>steam_games\<close> and
  \<^verbatim>\<open>events\<close> snapshots are the concatenation of the scraped category lists, as
  scraped.
\<close>

theorem cache_snapshots:
  "(deduplicate_apps_cache st = Inr st' \<longrightarrow>
      distinct (map app_id_of (apps (data_cache st')))
      \<and> subseq (apps (data_cache st')) (apps (data_cache st))
      \<and> set (map app_id_of (apps (data_cache st')))
          = {k \<in> app_id_of ` set (apps (data_cache st)). truthy k}
      \<and> (\<forall>z\<in>set (apps (data_cache st')).
            find (\<lambda>x. app_id_of x = app_id_of z) (apps (data_cache st)) = Some z))
   \<and> (list_all (\<lambda>x. is_dict x \<and> (truthy (app_id_of x) \<longrightarrow> hashable (app_id_of x)))
          (apps (data_cache st))
        \<longrightarrow> (\<exists>st'. deduplicate_apps_cache st = Inr st'))
   \<and> steam_games (data_cache (snd (steam_comprehensive_scrape f now (Inr trending_data) st)))
       = list_values trending_data
   \<and> events (data_cache (snd (events_comprehensive_scrape f now (Inr events_data) st)))
       = list_values events_data"
proof (intro conjI impI)
  assume "deduplicate_apps_cache st = Inr st'"
  then obtain ys where run: "dedup_apps (apps (data_cache st)) {} [] = Inr ys"
    and st': "apps (data_cache st') = ys"
    by (auto simp: deduplicate_apps_cache_def split: sum.splits)
  from dedup_apps_shape [OF run] st'
  show "distinct (map app_id_of (apps (data_cache st')))"
    and "subseq (apps (data_cache st')) (apps (data_cache st))"
    and "set (map app_id_of (apps (data_cache st')))
          = {k \<in> app_id_of ` set (apps (data_cache st)). truthy k}"
    and "\<forall>z\<in>set (apps (data_cache st')).
            find (\<lambda>x. app_id_of x = app_id_of z) (apps (data_cache st)) = Some z"
    by auto
next
  assume "list_all (\<lambda>x. is_dict x \<and> (truthy (app_id_of x) \<longrightarrow> hashable (app_id_of x)))
          (apps (data_cache st))"
  from dedup_apps_total [OF this, of "{}" "[]"]
  show "\<exists>st'. deduplicate_apps_cache st = Inr st'"
    by (auto simp: deduplicate_apps_cache_def)
qed (rule steam_cache events_cache)+

theorem cache_snapshots_witness:
  "deduplicate_apps_cache
     (cached_apps [app_record ''123'' ''A'' 4, app_record ''456'' ''B'' 3,
                   untitled_app [], app_record ''123'' ''A again'' 5])
     = Inr (cached_apps [app_record ''123'' ''A'' 4, app_record ''456'' ''B'' 3])
   \<and> distinct (map app_id_of [app_record ''123'' ''A'' 4, app_record ''456'' ''B'' 3])"
proof -
  let ?st = "cached_apps [app_record ''123'' ''A'' 4, app_record ''456'' ''B'' 3,
                   untitled_app [], app_record ''123'' ''A again'' 5]"
  let ?st' = "cached_apps [app_record ''123'' ''A'' 4, app_record ''456'' ''B'' 3]"
  have run: "deduplicate_apps_cache ?st = Inr ?st'"
    by (simp add: deduplicate_apps_cache_def cached_apps_def dedup_apps_step app_record_def
        untitled_app_def dict_get_def)
  with cache_snapshots [where st = ?st and st' = ?st']
  have "distinct (map app_id_of (apps (data_cache ?st')))" by blast
  with run show ?thesis by (simp add: cached_apps_def)
qed

section \<open>Properties of \<^verbatim>\<open>execute_job\<close>\<close>

lemma execute_job_last_run_times:
  "last_run_times (snd (execute_job run now total_seconds pl job_name)) =
     (if job_name \<in> set job_names \<and> isl (fst (run job_name pl)) then last_run_times pl
      else (last_run_times pl)(replace_scrape job_name \<mapsto> Some (now 2)))"
  by (auto simp: execute_job_def Let_def split: prod.splits sum.splits)

lemma execute_job_status:
  "fst (execute_job run now total_seconds pl job_name) ''status'' =
     Some (VStr (if job_name \<in> set job_names \<and> \<not> isl (fst (run job_name pl))
                 then ''success'' else ''error''))"
  by (auto simp: execute_job_def Let_def split: prod.splits sum.splits)

lemma execute_job_error:
  "fst (execute_job run now total_seconds pl job_name) ''error'' =
     (if job_name \<in> set job_names then
        (case fst (run job_name pl) of Inl e \<Rightarrow> Some (VStr e) | Inr data \<Rightarrow> None)
      else Some (VStr (''Unknown job: '' @ job_name)))"
  by (auto simp: execute_job_def Let_def split: prod.splits sum.splits)

lemma job_returns_last_run_times:
  "last_run_times (snd (execute_job (job_returns body) now total_seconds pl job_name)) =
     (last_run_times pl)(replace_scrape job_name \<mapsto> Some (now 2))"
  by (simp add: execute_job_last_run_times job_returns_def)

lemma job_returns_data:
  "fst (execute_job (job_returns body) now total_seconds pl job_name) ''data'' =
     (if job_name \<in> set job_names then Some (fst (body pl)) else None)"
  by (simp add: execute_job_def Let_def job_returns_def)

text \<open>
  C8, as the specification states it, fails: \<^verbatim>\<open>execute_job\<close> takes the outcome from
  whether the job body returned, and the job bodies return also when the scrape failed.
  A quick App Store scrape in which every request failed returns its summary with no
  trending app; the result has status \<^verbatim>\<open>success\<close> and no \<^verbatim>\<open>error\<close> entry, the
  completion time is recorded, and nothing was stored.
\<close>

theorem execute_job_failed_scrape_counterexample:
  "fst (execute_job (quick_scrape_run (Inr nothing_fetched)) clock seconds_apart
          (init empty_database) ''app_store_quick_scrape'') ''status'' = Some (VStr ''success'')
   \<and> fst (execute_job (quick_scrape_run (Inr nothing_fetched)) clock seconds_apart
          (init empty_database) ''app_store_quick_scrape'') ''error'' = None
   \<and> fst (execute_job (quick_scrape_run (Inr nothing_fetched)) clock seconds_apart
          (init empty_database) ''app_store_quick_scrape'') ''data''
       = Some (VDict [''trending_apps_count'' \<mapsto> VNum 0,
                      ''analysis_timestamp'' \<mapsto> VStr ''2025-06-01T12:00:00'',
                      ''regions_covered'' \<mapsto> VNum 30])
   \<and> last_run_times
        (snd (execute_job (quick_scrape_run (Inr nothing_fetched)) clock seconds_apart
                (init empty_database) ''app_store_quick_scrape'')) ''app_store_quick''
       = Some (Some (clock 2))
   \<and> app_table (tables (stores
        (snd (execute_job (quick_scrape_run (Inr nothing_fetched)) clock seconds_apart
                (init empty_database) ''app_store_quick_scrape'')))) = []"
  by (simp add: execute_job_def Let_def quick_scrape_run_def job_returns_def job_names_def
      app_store_quick_scrape_def nothing_fetched_def dict_get_def init_def empty_database_def)

text \<open>
  C8, amended. When an invocation completes with its job body returning, or with an
  unknown job name, the entry of \<^verbatim>\<open>last_run_times\<close> under the job name with
  \<^verbatim>\<open>_scrape\<close> removed is set to a clock reading taken at completion, whether the work
  of the job succeeded or failed. The outcome is in the result handed to the caller:
  status \<^verbatim>\<open>success\<close> with the body's dictionary as \<^verbatim>\<open>data\<close> and no \<^verbatim>\<open>error\<close> entry
  whenever the body of a known job returned, and status \<^verbatim>\<open>error\<close> with a message only
  for an unknown job name. A failure that a job body caught is inside the data, as
  \<^verbatim>\<open>{'error': message}\<close>, under status \<^verbatim>\<open>success\<close>.
\<close>

theorem execute_job_outcome:
  "last_run_times (snd (execute_job (job_returns body) now total_seconds pl job_name)) =
     (last_run_times pl)(replace_scrape job_name \<mapsto> Some (now 2))
   \<and> fst (execute_job (job_returns body) now total_seconds pl job_name) ''status'' =
       Some (VStr (if job_name \<in> set job_names then ''success'' else ''error''))
   \<and> fst (execute_job (job_returns body) now total_seconds pl job_name) ''error'' =
       (if job_name \<in> set job_names then None
        else Some (VStr (''Unknown job: '' @ job_name)))
   \<and> fst (execute_job (job_returns body) now total_seconds pl job_name) ''data'' =
       (if job_name \<in> set job_names then Some (fst (body pl)) else None)
   \<and> fst (app_store_quick_scrape fromisoformat t (Inl e) st) = error_data e
   \<and> fst (steam_comprehensive_scrape fromisoformat t (Inl e) st) = error_data e
   \<and> fst (events_comprehensive_scrape fromisoformat t (Inl e) st) = error_data e"
  by (simp add: job_returns_last_run_times job_returns_data execute_job_status
      execute_job_error)
     (simp add: job_returns_def app_store_quick_scrape_def steam_comprehensive_scrape_def
      events_comprehensive_scrape_def)

lemma analysis_untouched:
  "last_run_times (snd (execute_job run now total_seconds pl ''comprehensive_analysis''))
     ''analysis'' = last_run_times pl ''analysis''"
  by (simp add: execute_job_last_run_times)

lemma execute_jobs_analysis:
  "last_run_times (execute_jobs runs total_seconds pl ''comprehensive_analysis'') ''analysis''
     = last_run_times pl ''analysis''"
proof (induction runs arbitrary: pl)
  case Nil
  then show ?case by simp
next
  case (Cons r rs)
  obtain run now where r: "r = (run, now)" by (cases r)
  show ?case by (simp add: r Cons.IH analysis_untouched)
qed

text \<open>
  C10. A run of \<^verbatim>\<open>comprehensive_analysis\<close> whose body returns records the completion
  time under the key \<^verbatim>\<open>comprehensive_analysis\<close>; no run of it changes the entry
  \<^verbatim>\<open>analysis\<close>, which \<^verbatim>\<open>__init__\<close> sets to \<^verbatim>\<open>None\<close>; so after any number of runs
  of the job from the initial state, whatever their bodies do, \<^verbatim>\<open>get_pipeline_status\<close>
  reports \<^verbatim>\<open>analysis\<close> as \<^verbatim>\<open>None\<close>.
\<close>

theorem analysis_last_run_stays_None:
  "(\<not> isl (fst (run ''comprehensive_analysis'' pl)) \<longrightarrow>
      last_run_times (snd (execute_job run now total_seconds pl ''comprehensive_analysis''))
        ''comprehensive_analysis'' = Some (Some (now 2)))
   \<and> last_run_times (snd (execute_job run now total_seconds pl ''comprehensive_analysis''))
        ''analysis'' = last_run_times pl ''analysis''
   \<and> last_run_times (init db) ''analysis'' = Some None
   \<and> status_last_run_times
        (get_pipeline_status
           (execute_jobs runs total_seconds (init db) ''comprehensive_analysis''))
        ''analysis'' = Some None"
  by (simp add: execute_job_last_run_times execute_jobs_analysis get_pipeline_status_def
      analysis_untouched) (simp add: init_def)

theorem analysis_last_run_stays_None_witness:
  "\<not> isl (fst (returning_run ''comprehensive_analysis'' (init empty_database)))
   \<and> last_run_times
        (snd (execute_job returning_run clock seconds_apart (init empty_database)
                ''comprehensive_analysis''))
        ''comprehensive_analysis'' = Some (Some (clock 2))
   \<and> status_last_run_times
        (get_pipeline_status
           (execute_jobs [(returning_run, clock), (returning_run, clock), (returning_run, clock)]
              seconds_apart (init empty_database) ''comprehensive_analysis''))
        ''analysis'' = Some None
   \<and> status_last_run_times
        (get_pipeline_status
           (execute_jobs [(returning_run, clock), (returning_run, clock), (returning_run, clock)]
              seconds_apart (init empty_database) ''comprehensive_analysis''))
        ''comprehensive_analysis'' = Some (Some (clock 2))"
proof -
  have ok: "\<not> isl (fst (returning_run ''comprehensive_analysis'' (init empty_database)))"
    by (simp add: returning_run_def)
  from analysis_last_run_stays_None [where run = returning_run and now = clock
      and total_seconds = seconds_apart and pl = "init empty_database" and db = empty_database
      and runs = "[(returning_run, clock), (returning_run, clock), (returning_run, clock)]"] ok
  have "last_run_times
        (snd (execute_job returning_run clock seconds_apart (init empty_database)
                ''comprehensive_analysis''))
        ''comprehensive_analysis'' = Some (Some (clock 2))"
    and "status_last_run_times
        (get_pipeline_status
           (execute_jobs [(returning_run, clock), (returning_run, clock), (returning_run, clock)]
              seconds_apart (init empty_database) ''comprehensive_analysis''))
        ''analysis'' = Some None"
    by blast+
  moreover have "status_last_run_times
        (get_pipeline_status
           (execute_jobs [(returning_run, clock), (returning_run, clock), (returning_run, clock)]
              seconds_apart (init empty_database) ''comprehensive_analysis''))
        ''comprehensive_analysis'' = Some (Some (clock 2))"
    by (simp add: get_pipeline_status_def execute_job_last_run_times returning_run_def
        job_names_def)
  ultimately show ?thesis using ok by simp
qed

text \<open>
  A quick scrape with one trending app (it is stored, the status is \<^verbatim>\<open>success\<close>), and
  a job name \<^verbatim>\<open>execute_job\<close> does not know.
\<close>

theorem execute_job_outcome_witness:
  "last_run_times
     (snd (execute_job (quick_scrape_run (Inr one_trending)) clock seconds_apart
             (init empty_database) ''app_store_quick_scrape'')) ''app_store_quick''
     = Some (Some (clock 2))
   \<and> fst (execute_job (quick_scrape_run (Inr one_trending)) clock seconds_apart
             (init empty_database) ''app_store_quick_scrape'') ''status''
       = Some (VStr ''success'')
   \<and> column ''app_store_id''
        (app_table (tables (stores
           (snd (execute_job (quick_scrape_run (Inr one_trending)) clock seconds_apart
                   (init empty_database) ''app_store_quick_scrape'')))))
       = [VStr ''123'']
   \<and> fst (execute_job (quick_scrape_run (Inr one_trending)) clock seconds_apart
             (init empty_database) ''nightly_backup'') ''status'' = Some (VStr ''error'')
   \<and> fst (execute_job (quick_scrape_run (Inr one_trending)) clock seconds_apart
             (init empty_database) ''nightly_backup'') ''error''
       = Some (VStr ''Unknown job: nightly_backup'')
   \<and> last_run_times
        (snd (execute_job (quick_scrape_run (Inr one_trending)) clock seconds_apart
                (init empty_database) ''nightly_backup'')) ''nightly_backup''
       = Some (Some (clock 2))"
proof -
  let ?body = "\<lambda>pl. app_store_quick_scrape fromisoformat_examples noon (Inr one_trending)
                        (stores pl)"
  have stored: "column ''app_store_id''
        (app_table (tables (stores
           (snd (execute_job (job_returns ?body) clock seconds_apart
                   (init empty_database) ''app_store_quick_scrape'')))))
       = [VStr ''123'']"
    by (simp add: execute_job_def Let_def job_returns_def job_names_def
        app_store_quick_scrape_def one_trending_def init_def empty_database_def log_error_def
        store_eval)
  from execute_job_outcome [where body = ?body and now = clock
      and total_seconds = seconds_apart and pl = "init empty_database"
      and job_name = "''app_store_quick_scrape''"]
    execute_job_outcome [where body = ?body and now = clock
      and total_seconds = seconds_apart and pl = "init empty_database"
      and job_name = "''nightly_backup''"]
    stored
  show ?thesis
    by (simp add: quick_scrape_run_def job_names_def)
qed

end
